theory Spec2Isabelle
  imports Main "HOL-Library.Word"
begin

unbundle bit_operations_syntax

section \<open>go-coin: blocks, transactions, validation and mining\<close>

text \<open>
  A shallow embedding of \<^verbatim>\<open>types.go\<close> and \<^verbatim>\<open>node.go\<close>.  The functions are
  modelled on values first: a pointer to a block or a transaction is the object it
  points to, and a function that writes to its receiver returns the receiver as it is
  after the call.  The validator is then modelled once more on an explicit store, where
  pointers are addresses, to state what it does to the objects it is given.

  Go's \<^verbatim>\<open>uint32\<close> is
  \<open>32 word\<close> (addition, subtraction and comparison are the machine's), a \<^verbatim>\<open>[]byte\<close> is a
  list of \<open>8 word\<close>, a \<^verbatim>\<open>map[string]*Transaction\<close> is a partial function on strings.
  A \<^verbatim>\<open>time.Time\<close> is the instant it denotes, an integer count of nanoseconds, and
  \<^verbatim>\<open>t.After(u)\<close> is \<open>u < t\<close>.

  The functions of Go's standard library that the code calls are not part of the
  repository; they are parameters of the definitions that call them:
  \<^item> \<open>H\<close>: the digest \<^verbatim>\<open>sha256\<close> of everything written to the hash, in order;
  \<^item> \<open>mt\<close>: \<^verbatim>\<open>time.Time.MarshalText\<close>, which can fail;
  \<^item> \<open>mc\<close>: \<^verbatim>\<open>elliptic.MarshalCompressed\<close>;
  \<^item> \<open>vf\<close>: \<^verbatim>\<open>ecdsa.Verify\<close>;
  \<^item> \<open>sg\<close>: \<^verbatim>\<open>ecdsa.Sign\<close> reading \<^verbatim>\<open>rand.Reader\<close>, whose state is threaded through.
\<close>

subsection \<open>Data\<close>

type_synonym byte = "8 word"
type_synonym uint32 = "32 word"
type_synonym bytes = "byte list"
type_synonym time = int

datatype PublicKey = PublicKey (X: int) (Y: int)

datatype PrivateKey = PrivateKey (Public: PublicKey) (D: int)

record OwnerSignature =
  R :: int
  S :: int

record TransactionBody =
  InputTransactionHashes :: "bytes list"
  NextOwner :: PublicKey
  InputValue :: uint32
  Change :: uint32
  Fee :: uint32

text \<open>
  \<^verbatim>\<open>Transaction\<close> and \<^verbatim>\<open>Block\<close> both have fields \<^verbatim>\<open>Body\<close> and \<^verbatim>\<open>BodyHash\<close>; the
  transaction's are \<open>TxBody\<close> and \<open>TxBodyHash\<close> here.
\<close>

record Transaction =
  TxBody :: TransactionBody
  TxBodyHash :: bytes
  OwnerSignatures :: "OwnerSignature list"
  isCoinbase :: bool

record BlockBody =
  Version :: uint32
  Id :: uint32
  PrevHash :: bytes
  Transactions :: "Transaction list"
  Nonce :: uint32
  Time :: time

record Block =
  Body :: BlockBody
  BodyHash :: bytes
  bodyStaticHash :: bytes

record Chain =
  Blocks :: "Block list"

text \<open>
  The errors of \<^verbatim>\<open>node.go\<close> are strings made by \<^verbatim>\<open>fmt.Errorf\<close>; each place that makes
  one is a constructor here, in the order of the source and under the name the
  specification gives it (the two id errors, of lines 82 and 92, are both \<open>IdMismatch\<close>).
  \<open>MarshalTextError\<close> and \<open>SignError\<close> are the errors the library hands through
  \<^verbatim>\<open>calculateBodyHash\<close> and \<^verbatim>\<open>NewTransaction\<close>; \<open>IndexOutOfRange\<close> and
  \<open>NilDereference\<close> are the run-time panics of an index past the end of a slice and of
  a pointer that holds no object.
\<close>

datatype error =
    VersionMismatch
  | IdMismatch
  | PrevHashMismatch
  | NonMonotonicTimestamp
  | FutureTimestamp
  | EmptyBlock
  | SignatureCountMismatch
  | UnknownInput
  | InvalidSignature
  | ValueMismatch
  | InsufficientInputValue
  | CoinbaseValueMismatch
  | NonceSpaceExhausted
  | MarshalTextError
  | SignError
  | IndexOutOfRange
  | NilDereference

definition GenesisId :: uint32 where
  "GenesisId = 0"

definition MinimumRequiredLeadingZeros :: int where
  "MinimumRequiredLeadingZeros = 1"

definition MiningReward :: uint32 where
  "MiningReward = 10"

definition CurrentVersion :: uint32 where
  "CurrentVersion = 1"

subsection \<open>Encodings\<close>

text \<open>\<^verbatim>\<open>binary.Write(h, binary.LittleEndian, v)\<close> for a \<^verbatim>\<open>uint32\<close>: four bytes, lowest first.\<close>

definition le32 :: "uint32 \<Rightarrow> bytes" where
  "le32 v = [ucast v, ucast (drop_bit 8 v), ucast (drop_bit 16 v), ucast (drop_bit 24 v)]"

text \<open>\<^verbatim>\<open>hex.EncodeToString\<close>: two lower-case digits per byte, high nibble first.\<close>

definition hexdigit :: "nat \<Rightarrow> char" where
  "hexdigit n = ''0123456789abcdef'' ! n"

definition hex_EncodeToString :: "bytes \<Rightarrow> string" where
  "hex_EncodeToString src =
     concat (map (\<lambda>v. [hexdigit (unat (drop_bit 4 v)), hexdigit (unat (v AND 15))]) src)"

definition Block_String :: "Block \<Rightarrow> string" where
  "Block_String b = hex_EncodeToString (BodyHash b)"

definition Transaction_String :: "Transaction \<Rightarrow> string" where
  "Transaction_String t = hex_EncodeToString (TxBodyHash t)"

subsection \<open>Hashing\<close>

definition calculateBodyHash ::
  "(bytes \<Rightarrow> bytes) \<Rightarrow> (time \<Rightarrow> error + bytes) \<Rightarrow> bytes \<Rightarrow> uint32 \<Rightarrow> time \<Rightarrow> error + bytes"
where
  "calculateBodyHash H mt static nonce tm =
     (case mt tm of
        Inl err \<Rightarrow> Inl err
      | Inr timeText \<Rightarrow> Inr (H (static @ le32 nonce @ timeText)))"

definition staticHash :: "(bytes \<Rightarrow> bytes) \<Rightarrow> BlockBody \<Rightarrow> bytes" where
  "staticHash H b =
     H (le32 (Version b) @ le32 (Id b) @ PrevHash b @ concat (map TxBodyHash (Transactions b)))"

definition hash :: "(bytes \<Rightarrow> bytes) \<Rightarrow> (PublicKey \<Rightarrow> bytes) \<Rightarrow> TransactionBody \<Rightarrow> bytes" where
  "hash H mc t =
     H (concat (InputTransactionHashes t) @ mc (NextOwner t)
        @ le32 (InputValue t) @ le32 (Change t) @ le32 (Fee t))"

subsection \<open>Blocks\<close>

definition NewBlock ::
  "(bytes \<Rightarrow> bytes) \<Rightarrow> (time \<Rightarrow> error + bytes) \<Rightarrow> BlockBody \<Rightarrow> error + Block"
where
  "NewBlock H mt body =
     (let static = staticHash H body in
      case calculateBodyHash H mt static (Nonce body) (Time body) of
        Inl err \<Rightarrow> Inl err
      | Inr bodyHash \<Rightarrow> Inr \<lparr>Body = body, BodyHash = bodyHash, bodyStaticHash = static\<rparr>)"

text \<open>
  \<^verbatim>\<open>SetFields\<close> writes the nonce and the time into the body before it hashes, so they
  are written also when it returns an error; the block after the call is the second
  component, the error (\<open>None\<close> for \<^verbatim>\<open>nil\<close>) the first.
\<close>

definition SetFields ::
  "(bytes \<Rightarrow> bytes) \<Rightarrow> (time \<Rightarrow> error + bytes) \<Rightarrow> Block \<Rightarrow> uint32 \<Rightarrow> time
     \<Rightarrow> error option \<times> Block"
where
  "SetFields H mt b nonce tm =
     (let b1 = b\<lparr>Body := (Body b)\<lparr>Nonce := nonce, Time := tm\<rparr>\<rparr> in
      case calculateBodyHash H mt (bodyStaticHash b1) (Nonce (Body b1)) (Time (Body b1)) of
        Inl err \<Rightarrow> (Some err, b1)
      | Inr bodyHash \<Rightarrow> (None, b1\<lparr>BodyHash := bodyHash\<rparr>))"

subsection \<open>Transactions\<close>

text \<open>
  \<^verbatim>\<open>NewTransaction\<close> signs the body hash once per private key, whatever \<^verbatim>\<open>isCoinbase\<close>
  is.  \<open>sg\<close> takes the state of the random source and returns it with its result; the
  first failing signature ends the loop with its error.
\<close>

fun signAll ::
  "('r \<Rightarrow> PrivateKey \<Rightarrow> bytes \<Rightarrow> 'r \<times> (error + OwnerSignature)) \<Rightarrow> 'r \<Rightarrow> bytes
     \<Rightarrow> PrivateKey list \<Rightarrow> OwnerSignature list \<Rightarrow> 'r \<times> (error + OwnerSignature list)"
where
  "signAll sg rnd bodyHash [] ownerSignatures = (rnd, Inr ownerSignatures)"
| "signAll sg rnd bodyHash (priv # privs) ownerSignatures =
     (case sg rnd priv bodyHash of
        (rnd', Inl err) \<Rightarrow> (rnd', Inl err)
      | (rnd', Inr ownerSignature) \<Rightarrow>
          signAll sg rnd' bodyHash privs (ownerSignatures @ [ownerSignature]))"

definition NewTransaction ::
  "(bytes \<Rightarrow> bytes) \<Rightarrow> (PublicKey \<Rightarrow> bytes)
     \<Rightarrow> ('r \<Rightarrow> PrivateKey \<Rightarrow> bytes \<Rightarrow> 'r \<times> (error + OwnerSignature)) \<Rightarrow> 'r
     \<Rightarrow> TransactionBody \<Rightarrow> PrivateKey list \<Rightarrow> bool \<Rightarrow> 'r \<times> (error + Transaction)"
where
  "NewTransaction H mc sg rnd body privs coinbase =
     (let bodyHash = hash H mc body in
      case signAll sg rnd bodyHash privs [] of
        (rnd', Inl err) \<Rightarrow> (rnd', Inl err)
      | (rnd', Inr ownerSignatures) \<Rightarrow>
          (rnd', Inr \<lparr>TxBody = body, TxBodyHash = bodyHash,
                      OwnerSignatures = ownerSignatures, isCoinbase = coinbase\<rparr>))"

definition OutputValue :: "Transaction \<Rightarrow> uint32" where
  "OutputValue t =
     (if \<not> isCoinbase t then InputValue (TxBody t) - Change (TxBody t) - Fee (TxBody t)
      else InputValue (TxBody t))"

subsection \<open>Difficulty\<close>

text \<open>\<^verbatim>\<open>bits.LeadingZeros8(x)\<close> is \<^verbatim>\<open>8 - bits.Len8(x)\<close>, the length in bits of \<open>x\<close>.\<close>

fun Len :: "nat \<Rightarrow> nat" where
  "Len n = (if n = 0 then 0 else Suc (Len (n div 2)))"

definition LeadingZeros8 :: "byte \<Rightarrow> int" where
  "LeadingZeros8 x = 8 - int (Len (unat x))"

fun leadingZerosFrom :: "int \<Rightarrow> bytes \<Rightarrow> int" where
  "leadingZerosFrom count [] = count"
| "leadingZerosFrom count (b # data) =
     (if b = 0 then leadingZerosFrom (count + 8) data else count + LeadingZeros8 b)"

definition leadingZeros :: "bytes \<Rightarrow> int" where
  "leadingZeros data = leadingZerosFrom 0 data"

definition nonceIsValid :: "Block \<Rightarrow> bool" where
  "nonceIsValid block \<longleftrightarrow> leadingZeros (BodyHash block) \<ge> MinimumRequiredLeadingZeros"

subsection \<open>Validation\<close>

text \<open>
  The lookup \<^verbatim>\<open>allTransactions\<close>: every transaction of every block of the chain, a later
  one replacing an earlier one under the same key.
\<close>

definition addTransactions ::
  "(string \<rightharpoonup> Transaction) \<Rightarrow> Transaction list \<Rightarrow> (string \<rightharpoonup> Transaction)"
where
  "addTransactions allTransactions ts =
     foldl (\<lambda>m transaction. m(Transaction_String transaction \<mapsto> transaction)) allTransactions ts"

definition chainTransactions :: "Block list \<Rightarrow> (string \<rightharpoonup> Transaction)" where
  "chainTransactions blocks =
     foldl (\<lambda>m block. addTransactions m (Transactions (Body block))) Map.empty blocks"

text \<open>
  The inner loop over the input hashes of one transaction, \<open>bodyHash\<close> its hash and
  \<open>sigs\<close> what is left of its signatures: look the input up, take the signature at the
  same index, verify it, add the input's output value.
\<close>

fun sumInputs ::
  "(PublicKey \<Rightarrow> bytes \<Rightarrow> int \<Rightarrow> int \<Rightarrow> bool) \<Rightarrow> (string \<rightharpoonup> Transaction) \<Rightarrow> bytes
     \<Rightarrow> bytes list \<Rightarrow> OwnerSignature list \<Rightarrow> uint32 \<Rightarrow> error + uint32"
where
  "sumInputs vf allTransactions bodyHash [] sigs expectedInputValue = Inr expectedInputValue"
| "sumInputs vf allTransactions bodyHash (inputTransactionHash # hashes) sigs expectedInputValue =
     (case allTransactions (hex_EncodeToString inputTransactionHash) of
        None \<Rightarrow> Inl UnknownInput
      | Some inputTransaction \<Rightarrow>
          (case sigs of
             [] \<Rightarrow> Inl IndexOutOfRange
           | inputOwnerSignature # sigs' \<Rightarrow>
               if \<not> vf (NextOwner (TxBody inputTransaction)) bodyHash
                       (R inputOwnerSignature) (S inputOwnerSignature)
               then Inl InvalidSignature
               else sumInputs vf allTransactions bodyHash hashes sigs'
                      (expectedInputValue + OutputValue inputTransaction)))"

text \<open>
  The loop over \<^verbatim>\<open>newBlock.Body.Transactions[1:]\<close>; it returns the fees of the block, or
  the first error.
\<close>

fun verifyTransactions ::
  "(PublicKey \<Rightarrow> bytes \<Rightarrow> int \<Rightarrow> int \<Rightarrow> bool) \<Rightarrow> (string \<rightharpoonup> Transaction) \<Rightarrow> uint32
     \<Rightarrow> Transaction list \<Rightarrow> error + uint32"
where
  "verifyTransactions vf allTransactions newBlockFees [] = Inr newBlockFees"
| "verifyTransactions vf allTransactions newBlockFees (transaction # rest) =
     (if length (InputTransactionHashes (TxBody transaction)) \<noteq> length (OwnerSignatures transaction)
      then Inl SignatureCountMismatch
      else
        case sumInputs vf allTransactions (TxBodyHash transaction)
               (InputTransactionHashes (TxBody transaction)) (OwnerSignatures transaction) 0 of
          Inl err \<Rightarrow> Inl err
        | Inr expectedInputValue \<Rightarrow>
            if expectedInputValue \<noteq> InputValue (TxBody transaction) then Inl ValueMismatch
            else if InputValue (TxBody transaction)
                      < Change (TxBody transaction) + Fee (TxBody transaction)
            then Inl InsufficientInputValue
            else verifyTransactions vf
                   (allTransactions(Transaction_String transaction \<mapsto> transaction))
                   (newBlockFees + Fee (TxBody transaction)) rest)"

text \<open>
  The checks of \<^verbatim>\<open>verifyExceptNonce\<close> on the fields of the block (lines 76 to 99):
  version, id, previous hash and time.  \<open>now\<close> is what \<^verbatim>\<open>time.Now()\<close> returns there;
  \<open>Inr ()\<close> is the \<^verbatim>\<open>nil\<close> error.
\<close>

definition verifyBlockFields :: "time \<Rightarrow> Block list \<Rightarrow> Block \<Rightarrow> error + unit" where
  "verifyBlockFields now blocks newBlock =
     (if Version (Body newBlock) \<noteq> CurrentVersion then Inl VersionMismatch
      else if length blocks > 0 \<and> Id (Body newBlock) \<noteq> Id (Body (last blocks)) + 1
      then Inl IdMismatch
      else if length blocks > 0 \<and> PrevHash (Body newBlock) \<noteq> BodyHash (last blocks)
      then Inl PrevHashMismatch
      else if length blocks > 0 \<and> \<not> Time (Body newBlock) > Time (Body (last blocks))
      then Inl NonMonotonicTimestamp
      else if \<not> length blocks > 0 \<and> Id (Body newBlock) \<noteq> GenesisId
      then Inl IdMismatch
      else if Time (Body newBlock) > now then Inl FutureTimestamp
      else Inr ())"

definition verifyExceptNonce ::
  "(PublicKey \<Rightarrow> bytes \<Rightarrow> int \<Rightarrow> int \<Rightarrow> bool) \<Rightarrow> time \<Rightarrow> Block list \<Rightarrow> Block \<Rightarrow> error + unit"
where
  "verifyExceptNonce vf now blocks newBlock =
     (case verifyBlockFields now blocks newBlock of
        Inl err \<Rightarrow> Inl err
      | Inr u \<Rightarrow>
          (case Transactions (Body newBlock) of
             [] \<Rightarrow> Inl EmptyBlock
           | coinBaseTransaction # rest \<Rightarrow>
               (case verifyTransactions vf
                       ((chainTransactions blocks)
                          (Transaction_String coinBaseTransaction \<mapsto> coinBaseTransaction))
                       0 rest of
                  Inl err \<Rightarrow> Inl err
                | Inr newBlockFees \<Rightarrow>
                    if InputValue (TxBody coinBaseTransaction) \<noteq> newBlockFees + MiningReward
                    then Inl CoinbaseValueMismatch
                    else Inr ())))"

text \<open>
  The lookup as it stands when the loop reaches the transaction at index \<open>i\<close> of
  \<^verbatim>\<open>newBlock.Body.Transactions[1:]\<close>: the transactions of the chain, the first
  transaction of the block, and the \<open>i\<close> transactions checked before.
\<close>

definition lookupBefore ::
  "Block list \<Rightarrow> Transaction \<Rightarrow> Transaction list \<Rightarrow> nat \<Rightarrow> (string \<rightharpoonup> Transaction)"
where
  "lookupBefore blocks coinBaseTransaction rest i =
     addTransactions
       ((chainTransactions blocks)(Transaction_String coinBaseTransaction \<mapsto> coinBaseTransaction))
       (take i rest)"

subsection \<open>Validation on an explicit store\<close>

text \<open>
  \<^verbatim>\<open>verifyExceptNonce\<close> receives pointers: a slice of \<^verbatim>\<open>*Block\<close> and a \<^verbatim>\<open>*Block\<close>, whose
  bodies and transactions are pointers again.  To state what it does to the objects it
  is given, the same function is written once more on a store: an address is a number,
  the store maps the addresses of each kind of object to the object, and every
  operation takes the store and returns it with its result.  The lookup
  \<^verbatim>\<open>allTransactions\<close> then holds addresses, as the Go map holds pointers.  An address that
  holds no object is the \<^verbatim>\<open>nil\<close> pointer, and reading through it is the panic
  \<open>NilDereference\<close>.
\<close>

type_synonym addr = nat

record BlockCell =
  blockBody :: addr
  blockBodyHash :: bytes
  blockStaticHash :: bytes

record BodyCell =
  bodyVersion :: uint32
  bodyId :: uint32
  bodyPrevHash :: bytes
  bodyTransactions :: "addr list"
  bodyNonce :: uint32
  bodyTime :: time

record TransactionCell =
  txBody :: addr
  txBodyHash :: bytes
  txOwnerSignatures :: "OwnerSignature list"
  txIsCoinbase :: bool

record Store =
  blockCells :: "addr \<rightharpoonup> BlockCell"
  bodyCells :: "addr \<rightharpoonup> BodyCell"
  transactionCells :: "addr \<rightharpoonup> TransactionCell"
  transactionBodyCells :: "addr \<rightharpoonup> TransactionBody"

type_synonym 'a run = "Store \<Rightarrow> (error + 'a) \<times> Store"

definition ret :: "'a \<Rightarrow> 'a run" where
  "ret x s = (Inr x, s)"

definition raise :: "error \<Rightarrow> 'a run" where
  "raise err s = (Inl err, s)"

definition andThen :: "'a run \<Rightarrow> ('a \<Rightarrow> 'b run) \<Rightarrow> 'b run" where
  "andThen m f s = (case m s of (Inl err, s') \<Rightarrow> (Inl err, s') | (Inr x, s') \<Rightarrow> f x s')"

definition load :: "(Store \<Rightarrow> addr \<rightharpoonup> 'a) \<Rightarrow> addr \<Rightarrow> 'a run" where
  "load cells p s = (case cells s p of None \<Rightarrow> (Inl NilDereference, s) | Some c \<Rightarrow> (Inr c, s))"

definition OutputValue_at :: "addr \<Rightarrow> uint32 run" where
  "OutputValue_at t =
     andThen (load transactionCells t) (\<lambda>tx.
     andThen (load transactionBodyCells (txBody tx)) (\<lambda>body.
       if \<not> txIsCoinbase tx then ret (InputValue body - Change body - Fee body)
       else ret (InputValue body)))"

definition Transaction_String_at :: "addr \<Rightarrow> string run" where
  "Transaction_String_at t =
     andThen (load transactionCells t) (\<lambda>tx. ret (hex_EncodeToString (txBodyHash tx)))"

fun addTransactions_at :: "(string \<rightharpoonup> addr) \<Rightarrow> addr list \<Rightarrow> (string \<rightharpoonup> addr) run" where
  "addTransactions_at allTransactions [] = ret allTransactions"
| "addTransactions_at allTransactions (transaction # ts) =
     andThen (Transaction_String_at transaction) (\<lambda>key.
       addTransactions_at (allTransactions(key \<mapsto> transaction)) ts)"

fun chainTransactions_at :: "(string \<rightharpoonup> addr) \<Rightarrow> addr list \<Rightarrow> (string \<rightharpoonup> addr) run" where
  "chainTransactions_at allTransactions [] = ret allTransactions"
| "chainTransactions_at allTransactions (block # blocks) =
     andThen (load blockCells block) (\<lambda>b.
     andThen (load bodyCells (blockBody b)) (\<lambda>body.
     andThen (addTransactions_at allTransactions (bodyTransactions body)) (\<lambda>allTransactions'.
       chainTransactions_at allTransactions' blocks)))"

fun sumInputs_at ::
  "(PublicKey \<Rightarrow> bytes \<Rightarrow> int \<Rightarrow> int \<Rightarrow> bool) \<Rightarrow> (string \<rightharpoonup> addr) \<Rightarrow> bytes
     \<Rightarrow> bytes list \<Rightarrow> OwnerSignature list \<Rightarrow> uint32 \<Rightarrow> uint32 run"
where
  "sumInputs_at vf allTransactions bodyHash [] sigs expectedInputValue = ret expectedInputValue"
| "sumInputs_at vf allTransactions bodyHash (inputTransactionHash # hashes) sigs
       expectedInputValue =
     (case allTransactions (hex_EncodeToString inputTransactionHash) of
        None \<Rightarrow> raise UnknownInput
      | Some inputTransaction \<Rightarrow>
          (case sigs of
             [] \<Rightarrow> raise IndexOutOfRange
           | inputOwnerSignature # sigs' \<Rightarrow>
               andThen (load transactionCells inputTransaction) (\<lambda>itx.
               andThen (load transactionBodyCells (txBody itx)) (\<lambda>ibody.
                 if \<not> vf (NextOwner ibody) bodyHash
                         (R inputOwnerSignature) (S inputOwnerSignature)
                 then raise InvalidSignature
                 else
                   andThen (OutputValue_at inputTransaction) (\<lambda>v.
                     sumInputs_at vf allTransactions bodyHash hashes sigs'
                       (expectedInputValue + v))))))"

fun verifyTransactions_at ::
  "(PublicKey \<Rightarrow> bytes \<Rightarrow> int \<Rightarrow> int \<Rightarrow> bool) \<Rightarrow> (string \<rightharpoonup> addr) \<Rightarrow> uint32
     \<Rightarrow> addr list \<Rightarrow> uint32 run"
where
  "verifyTransactions_at vf allTransactions newBlockFees [] = ret newBlockFees"
| "verifyTransactions_at vf allTransactions newBlockFees (transaction # rest) =
     andThen (load transactionCells transaction) (\<lambda>tx.
     andThen (load transactionBodyCells (txBody tx)) (\<lambda>body.
       if length (InputTransactionHashes body) \<noteq> length (txOwnerSignatures tx)
       then raise SignatureCountMismatch
       else
         andThen (sumInputs_at vf allTransactions (txBodyHash tx)
                    (InputTransactionHashes body) (txOwnerSignatures tx) 0)
           (\<lambda>expectedInputValue.
              if expectedInputValue \<noteq> InputValue body then raise ValueMismatch
              else if InputValue body < Change body + Fee body
              then raise InsufficientInputValue
              else verifyTransactions_at vf
                     (allTransactions(hex_EncodeToString (txBodyHash tx) \<mapsto> transaction))
                     (newBlockFees + Fee body) rest)))"

definition verifyBlockFields_at :: "time \<Rightarrow> addr list \<Rightarrow> addr \<Rightarrow> unit run" where
  "verifyBlockFields_at now blocks newBlock =
     andThen (load blockCells newBlock) (\<lambda>nb.
     andThen (load bodyCells (blockBody nb)) (\<lambda>body.
       if bodyVersion body \<noteq> CurrentVersion then raise VersionMismatch
       else if length blocks > 0 then
         andThen (load blockCells (last blocks)) (\<lambda>headBlock.
         andThen (load bodyCells (blockBody headBlock)) (\<lambda>headBody.
           if bodyId body \<noteq> bodyId headBody + 1 then raise IdMismatch
           else if bodyPrevHash body \<noteq> blockBodyHash headBlock then raise PrevHashMismatch
           else if \<not> bodyTime body > bodyTime headBody then raise NonMonotonicTimestamp
           else if bodyTime body > now then raise FutureTimestamp
           else ret ()))
       else if bodyId body \<noteq> GenesisId then raise IdMismatch
       else if bodyTime body > now then raise FutureTimestamp
       else ret ()))"

definition verifyExceptNonce_at ::
  "(PublicKey \<Rightarrow> bytes \<Rightarrow> int \<Rightarrow> int \<Rightarrow> bool) \<Rightarrow> time \<Rightarrow> addr list \<Rightarrow> addr \<Rightarrow> unit run"
where
  "verifyExceptNonce_at vf now blocks newBlock =
     andThen (verifyBlockFields_at now blocks newBlock) (\<lambda>u.
     andThen (load blockCells newBlock) (\<lambda>nb.
     andThen (load bodyCells (blockBody nb)) (\<lambda>body.
       case bodyTransactions body of
         [] \<Rightarrow> raise EmptyBlock
       | coinBaseTransaction # rest \<Rightarrow>
           andThen (chainTransactions_at Map.empty blocks) (\<lambda>chainLookup.
           andThen (Transaction_String_at coinBaseTransaction) (\<lambda>key.
           andThen (verifyTransactions_at vf (chainLookup(key \<mapsto> coinBaseTransaction)) 0 rest)
             (\<lambda>newBlockFees.
           andThen (load transactionCells coinBaseTransaction) (\<lambda>cb.
           andThen (load transactionBodyCells (txBody cb)) (\<lambda>cbBody.
             if InputValue cbBody \<noteq> newBlockFees + MiningReward
             then raise CoinbaseValueMismatch
             else ret ()))))))))"

text \<open>
  The objects a store holds at an address, as the values of the first part: \<open>None\<close> when
  one of the pointers on the way holds no object.
\<close>

definition transactionAt :: "Store \<Rightarrow> addr \<Rightarrow> Transaction option" where
  "transactionAt s t =
     (case transactionCells s t of
        None \<Rightarrow> None
      | Some tx \<Rightarrow>
          (case transactionBodyCells s (txBody tx) of
             None \<Rightarrow> None
           | Some body \<Rightarrow>
               Some \<lparr>TxBody = body, TxBodyHash = txBodyHash tx,
                     OwnerSignatures = txOwnerSignatures tx, isCoinbase = txIsCoinbase tx\<rparr>))"

definition blockAt :: "Store \<Rightarrow> addr \<Rightarrow> Block option" where
  "blockAt s b =
     (case blockCells s b of
        None \<Rightarrow> None
      | Some c \<Rightarrow>
          (case bodyCells s (blockBody c) of
             None \<Rightarrow> None
           | Some body \<Rightarrow>
               (case those (map (transactionAt s) (bodyTransactions body)) of
                  None \<Rightarrow> None
                | Some txs \<Rightarrow>
                    Some \<lparr>Body = \<lparr>Version = bodyVersion body, Id = bodyId body,
                                  PrevHash = bodyPrevHash body, Transactions = txs,
                                  Nonce = bodyNonce body, Time = bodyTime body\<rparr>,
                          BodyHash = blockBodyHash c, bodyStaticHash = blockStaticHash c\<rparr>)))"

text \<open>
  The lookup of addresses \<open>m\<close> holds, in the store \<open>s\<close>, the transactions of the lookup of
  values \<open>mv\<close>: the same keys, and at each key the address of the transaction.
\<close>

definition lookupHolds ::
  "Store \<Rightarrow> (string \<rightharpoonup> addr) \<Rightarrow> (string \<rightharpoonup> Transaction) \<Rightarrow> bool"
where
  "lookupHolds s m mv \<longleftrightarrow>
     (\<forall>k. rel_option (\<lambda>p tv. transactionAt s p = Some tv) (m k) (mv k))"

subsection \<open>Mining\<close>

text \<open>
  The loop of \<^verbatim>\<open>Mine\<close>.  \<open>clock\<close> lists what \<^verbatim>\<open>time.Now()\<close> returns in the loop, one
  reading per trial, and \<open>k\<close> counts the readings taken so far; the loop returns the count
  with its result.
\<close>

function mineLoop ::
  "(bytes \<Rightarrow> bytes) \<Rightarrow> (time \<Rightarrow> error + bytes) \<Rightarrow> (nat \<Rightarrow> time) \<Rightarrow> nat \<Rightarrow> Block \<Rightarrow> uint32
     \<Rightarrow> (error + Block) \<times> nat"
where
  "mineLoop H mt clock k newBlock nonce =
     (case SetFields H mt newBlock nonce (clock k) of
        (Some err, b) \<Rightarrow> (Inl err, Suc k)
      | (None, b) \<Rightarrow>
          if \<not> nonceIsValid b then
            (if nonce + 1 = 0 then (Inl NonceSpaceExhausted, Suc k)
             else mineLoop H mt clock (Suc k) b (nonce + 1))
          else (Inr b, Suc k))"
  by pat_completeness auto
termination
proof (relation "measure (\<lambda>(H, mt, clock, k, newBlock, nonce). 2 ^ 32 - unat nonce)")
  show "wf (measure (\<lambda>(H, mt, clock, k, newBlock, nonce). 2 ^ 32 - unat (nonce :: uint32)))"
    by simp
next
  fix H :: "bytes \<Rightarrow> bytes" and mt :: "time \<Rightarrow> error + bytes" and clock :: "nat \<Rightarrow> time"
    and k :: nat and newBlock b :: Block and nonce :: uint32
  assume "nonce + 1 \<noteq> 0"
  then have "unat (nonce + 1) = Suc (unat nonce)"
    using unatSuc [of nonce] by (simp add: add.commute)
  moreover have "unat nonce < 2 ^ 32"
    using unsigned_less [of nonce] by simp
  ultimately show "((H, mt, clock, Suc k, b, nonce + 1), (H, mt, clock, k, newBlock, nonce))
      \<in> measure (\<lambda>(H, mt, clock, k, newBlock, nonce). 2 ^ 32 - unat nonce)"
    by simp
qed

text \<open>
  \<^verbatim>\<open>Mine\<close>: \<open>now\<close> is the time \<^verbatim>\<open>verifyExceptNonce\<close> reads, \<open>clock\<close> the times read in the
  loop.  The second component of the result is the number of trials the loop has made,
  0 when an error ends the call before the loop.
\<close>

definition Mine ::
  "(bytes \<Rightarrow> bytes) \<Rightarrow> (time \<Rightarrow> error + bytes) \<Rightarrow> (PublicKey \<Rightarrow> bytes \<Rightarrow> int \<Rightarrow> int \<Rightarrow> bool)
     \<Rightarrow> time \<Rightarrow> (nat \<Rightarrow> time) \<Rightarrow> Chain \<Rightarrow> BlockBody \<Rightarrow> (error + Block) \<times> nat"
where
  "Mine H mt vf now clock chain newBody =
     (case NewBlock H mt newBody of
        Inl err \<Rightarrow> (Inl err, 0)
      | Inr newBlock \<Rightarrow>
          (case verifyExceptNonce vf now (Blocks chain) newBlock of
             Inl err \<Rightarrow> (Inl err, 0)
           | Inr u \<Rightarrow> mineLoop H mt clock 0 newBlock 0))"

subsection \<open>Stand-ins for the library, to run the code on concrete inputs\<close>

text \<open>
  The theorems below hold for every digest, encoding and signature scheme.  To evaluate
  the definitions on a concrete block, these small executable functions stand for the
  library: a 32-bit polynomial checksum for the digest, four bytes for the text of a time
  (an error for a time before the epoch, as \<^verbatim>\<open>MarshalText\<close> fails on a year out of
  range), and a signature scheme in which the signature of a digest under the key \<open>d\<close> is
  \<open>d\<close> with the checksum of the digest, verified against the public key whose \<open>X\<close> is
  \<open>d\<close>.
\<close>

definition demoSum :: "bytes \<Rightarrow> uint32" where
  "demoSum data = foldl (\<lambda>a v. a * 31 + ucast v + 1) 7 data"

definition demoDigest :: "bytes \<Rightarrow> bytes" where
  "demoDigest data = le32 (demoSum data)"

definition demoMarshalText :: "time \<Rightarrow> error + bytes" where
  "demoMarshalText tm = (if tm < 0 then Inl MarshalTextError else Inr (le32 (word_of_int tm)))"

definition demoMarshalCompressed :: "PublicKey \<Rightarrow> bytes" where
  "demoMarshalCompressed pub = (if even (Y pub) then 2 else 3) # le32 (word_of_int (X pub))"

definition demoSign :: "nat \<Rightarrow> PrivateKey \<Rightarrow> bytes \<Rightarrow> nat \<times> (error + OwnerSignature)" where
  "demoSign rnd priv digest = (Suc rnd, Inr \<lparr>R = D priv, S = uint (demoSum digest)\<rparr>)"

definition demoVerify :: "PublicKey \<Rightarrow> bytes \<Rightarrow> int \<Rightarrow> int \<Rightarrow> bool" where
  "demoVerify pub digest r s \<longleftrightarrow> r = X pub \<and> s = uint (demoSum digest)"

subsection \<open>Example inputs\<close>

text \<open>
  The genesis block of \<^verbatim>\<open>testGenesisBlock\<close>: Alice grants herself the mining reward,
  then gives five coins to Bob.  The hashes and the signature are those the stand-ins
  compute (lemma \<open>exTransactions_built\<close> below).
\<close>

definition exAlice :: PrivateKey where
  "exAlice = PrivateKey (PublicKey 5 8) 5"

definition exBob :: PrivateKey where
  "exBob = PrivateKey (PublicKey 6 9) 6"

definition exCoinbaseBody :: TransactionBody where
  "exCoinbaseBody =
     \<lparr>InputTransactionHashes = [], NextOwner = Public exAlice,
      InputValue = 10, Change = 0, Fee = 0\<rparr>"

definition exCoinbase :: Transaction where
  "exCoinbase =
     \<lparr>TxBody = exCoinbaseBody, TxBodyHash = [237, 180, 65, 214],
      OwnerSignatures = [], isCoinbase = True\<rparr>"

definition exSpendBody :: TransactionBody where
  "exSpendBody =
     \<lparr>InputTransactionHashes = [[237, 180, 65, 214]], NextOwner = Public exBob,
      InputValue = 10, Change = 5, Fee = 0\<rparr>"

definition exSpend :: Transaction where
  "exSpend =
     \<lparr>TxBody = exSpendBody, TxBodyHash = [140, 39, 161, 245],
      OwnerSignatures = [\<lparr>R = 5, S = 10708886\<rparr>], isCoinbase = False\<rparr>"

definition exGenesisBody :: BlockBody where
  "exGenesisBody =
     \<lparr>Version = 1, Id = 0, PrevHash = [], Transactions = [exCoinbase, exSpend],
      Nonce = 0, Time = 0\<rparr>"

definition exGenesis :: Block where
  "exGenesis =
     \<lparr>Body = exGenesisBody, BodyHash = [234, 135, 251, 255],
      bodyStaticHash = [17, 54, 255, 189]\<rparr>"

text \<open>
  Further candidates on the empty chain, each with its block as \<^verbatim>\<open>NewBlock\<close> makes it
  (lemma \<open>exBlocks_built\<close>): a second spending of the same coinbase; a spending whose
  change and fee add up past \<open>2 ^ 32\<close>; a first transaction that has change, spent by the
  second; a first transaction with an input and a signature, not flagged as coinbase; a
  coinbase of value 11; a spending that pays a fee of 2; a first transaction that has
  change, with a second transaction that has no input.  Then a chain whose tip has the largest id, and a candidate of
  id 0 that links to it.
\<close>

definition exBody :: "Transaction list \<Rightarrow> BlockBody" where
  "exBody txs =
     \<lparr>Version = 1, Id = 0, PrevHash = [], Transactions = txs, Nonce = 0, Time = 0\<rparr>"

definition exSpendAgain :: Transaction where
  "exSpendAgain =
     \<lparr>TxBody = \<lparr>InputTransactionHashes = [[237, 180, 65, 214]], NextOwner = Public exBob,
                 InputValue = 10, Change = 4, Fee = 0\<rparr>,
      TxBodyHash = [173, 250, 191, 141],
      OwnerSignatures = [\<lparr>R = 5, S = 11895586\<rparr>], isCoinbase = False\<rparr>"

definition exDoubleSpend :: Block where
  "exDoubleSpend =
     \<lparr>Body = exBody [exCoinbase, exSpend, exSpendAgain], BodyHash = [233, 242, 74, 85],
      bodyStaticHash = [44, 164, 182, 160]\<rparr>"

definition exCoinbase9 :: Transaction where
  "exCoinbase9 =
     \<lparr>TxBody = \<lparr>InputTransactionHashes = [], NextOwner = Public exAlice,
                 InputValue = 9, Change = 0, Fee = 0\<rparr>,
      TxBodyHash = [142, 15, 144, 206], OwnerSignatures = [], isCoinbase = True\<rparr>"

definition exOverflowSpend :: Transaction where
  "exOverflowSpend =
     \<lparr>TxBody = \<lparr>InputTransactionHashes = [[142, 15, 144, 206]], NextOwner = Public exBob,
                 InputValue = 9, Change = 10, Fee = 4294967295\<rparr>,
      TxBodyHash = [197, 253, 191, 80],
      OwnerSignatures = [\<lparr>R = 5, S = 12613392\<rparr>], isCoinbase = False\<rparr>"

definition exOverflow :: Block where
  "exOverflow =
     \<lparr>Body = exBody [exCoinbase9, exOverflowSpend], BodyHash = [124, 120, 166, 168],
      bodyStaticHash = [238, 138, 134, 159]\<rparr>"

definition exChangeCoinbase :: Transaction where
  "exChangeCoinbase =
     \<lparr>TxBody = \<lparr>InputTransactionHashes = [], NextOwner = Public exAlice,
                 InputValue = 10, Change = 5, Fee = 0\<rparr>,
      TxBodyHash = [72, 149, 167, 221], OwnerSignatures = [], isCoinbase = True\<rparr>"

definition exChangeSpend :: Transaction where
  "exChangeSpend =
     \<lparr>TxBody = \<lparr>InputTransactionHashes = [[72, 149, 167, 221]], NextOwner = Public exBob,
                 InputValue = 10, Change = 5, Fee = 0\<rparr>,
      TxBodyHash = [165, 23, 82, 28],
      OwnerSignatures = [\<lparr>R = 5, S = 11435619\<rparr>], isCoinbase = False\<rparr>"

definition exFlagged :: "bool \<Rightarrow> Block" where
  "exFlagged flag =
     \<lparr>Body = exBody [exChangeCoinbase\<lparr>isCoinbase := flag\<rparr>, exChangeSpend],
      BodyHash = [194, 1, 97, 112], bodyStaticHash = [37, 40, 120, 16]\<rparr>"

definition exFirstWithInput :: Transaction where
  "exFirstWithInput =
     \<lparr>TxBody = \<lparr>InputTransactionHashes = [[1, 2, 3, 4]], NextOwner = Public exAlice,
                 InputValue = 10, Change = 0, Fee = 0\<rparr>,
      TxBodyHash = [43, 0, 135, 1],
      OwnerSignatures = [\<lparr>R = 6, S = 7780630\<rparr>], isCoinbase = False\<rparr>"

definition exUnflagged :: Block where
  "exUnflagged =
     \<lparr>Body = exBody [exFirstWithInput], BodyHash = [81, 171, 210, 92],
      bodyStaticHash = [245, 119, 9, 81]\<rparr>"

definition exCoinbase11 :: Block where
  "exCoinbase11 =
     \<lparr>Body = exBody [exCoinbase\<lparr>TxBody := exCoinbaseBody\<lparr>InputValue := 11\<rparr>\<rparr>],
      BodyHash = [182, 75, 190, 59], bodyStaticHash = [2, 68, 100, 81]\<rparr>"

definition exFeeCoinbase :: Transaction where
  "exFeeCoinbase =
     \<lparr>TxBody = \<lparr>InputTransactionHashes = [], NextOwner = Public exAlice,
                 InputValue = 12, Change = 0, Fee = 0\<rparr>,
      TxBodyHash = [171, 255, 164, 229], OwnerSignatures = [], isCoinbase = True\<rparr>"

definition exFeeSpend :: Transaction where
  "exFeeSpend =
     \<lparr>TxBody = \<lparr>InputTransactionHashes = [[171, 255, 164, 229]], NextOwner = Public exBob,
                 InputValue = 12, Change = 3, Fee = 2\<rparr>,
      TxBodyHash = [81, 145, 173, 223],
      OwnerSignatures = [\<lparr>R = 5, S = 9053433\<rparr>], isCoinbase = False\<rparr>"

definition exFee :: Block where
  "exFee =
     \<lparr>Body = exBody [exFeeCoinbase, exFeeSpend], BodyHash = [207, 112, 70, 153],
      bodyStaticHash = [13, 228, 14, 31]\<rparr>"

definition exNoInput :: Transaction where
  "exNoInput =
     \<lparr>TxBody = \<lparr>InputTransactionHashes = [], NextOwner = Public exBob,
                 InputValue = 0, Change = 0, Fee = 0\<rparr>,
      TxBodyHash = [23, 251, 140, 187], OwnerSignatures = [], isCoinbase = False\<rparr>"

definition exUnreferenced :: "bool \<Rightarrow> Block" where
  "exUnreferenced flag =
     \<lparr>Body = exBody [exChangeCoinbase\<lparr>isCoinbase := flag\<rparr>, exNoInput],
      BodyHash = [91, 33, 100, 224], bodyStaticHash = [252, 250, 58, 16]\<rparr>"

definition exTip :: Block where
  "exTip =
     \<lparr>Body = \<lparr>Version = 1, Id = 4294967295, PrevHash = [], Transactions = [exCoinbase],
               Nonce = 0, Time = 0\<rparr>,
      BodyHash = [251, 25, 244, 42], bodyStaticHash = [194, 43, 50, 61]\<rparr>"

definition exBobCoinbase :: Transaction where
  "exBobCoinbase =
     \<lparr>TxBody = \<lparr>InputTransactionHashes = [], NextOwner = Public exBob,
                 InputValue = 10, Change = 0, Fee = 0\<rparr>,
      TxBodyHash = [205, 112, 125, 8], OwnerSignatures = [], isCoinbase = True\<rparr>"

definition exWrapped :: Block where
  "exWrapped =
     \<lparr>Body = \<lparr>Version = 1, Id = 0, PrevHash = [251, 25, 244, 42],
               Transactions = [exBobCoinbase], Nonce = 0, Time = 1\<rparr>,
      BodyHash = [182, 142, 120, 167], bodyStaticHash = [72, 15, 4, 141]\<rparr>"

text \<open>A store that holds the genesis block \<open>exGenesis\<close> at the address 1.\<close>

definition exStore :: Store where
  "exStore =
     \<lparr>blockCells =
        [1 \<mapsto> \<lparr>blockBody = 2, blockBodyHash = [234, 135, 251, 255],
                 blockStaticHash = [17, 54, 255, 189]\<rparr>],
      bodyCells =
        [2 \<mapsto> \<lparr>bodyVersion = 1, bodyId = 0, bodyPrevHash = [], bodyTransactions = [3, 4],
                 bodyNonce = 0, bodyTime = 0\<rparr>],
      transactionCells =
        [3 \<mapsto> \<lparr>txBody = 5, txBodyHash = [237, 180, 65, 214], txOwnerSignatures = [],
                 txIsCoinbase = True\<rparr>,
         4 \<mapsto> \<lparr>txBody = 6, txBodyHash = [140, 39, 161, 245],
                 txOwnerSignatures = [\<lparr>R = 5, S = 10708886\<rparr>], txIsCoinbase = False\<rparr>],
      transactionBodyCells = [5 \<mapsto> exCoinbaseBody, 6 \<mapsto> exSpendBody]\<rparr>"

section \<open>Evaluating the examples\<close>

lemmas demo_defs = demoDigest_def demoSum_def demoMarshalText_def demoMarshalCompressed_def
  demoSign_def demoVerify_def le32_def

lemmas ex_defs = exAlice_def exBob_def exCoinbaseBody_def exCoinbase_def exSpendBody_def
  exSpend_def exGenesisBody_def exGenesis_def

lemmas ex_more_defs = exBody_def exSpendAgain_def exDoubleSpend_def exCoinbase9_def
  exOverflowSpend_def exOverflow_def exChangeCoinbase_def exChangeSpend_def exFlagged_def
  exFirstWithInput_def exUnflagged_def exCoinbase11_def exTip_def exBobCoinbase_def
  exWrapped_def exFeeCoinbase_def exFeeSpend_def exFee_def exNoInput_def exUnreferenced_def

lemmas verify_defs = verifyExceptNonce_def verifyBlockFields_def chainTransactions_def
  addTransactions_def Transaction_String_def hex_EncodeToString_def hexdigit_def
  OutputValue_def CurrentVersion_def GenesisId_def MiningReward_def

lemma exTransactions_built:
  "NewTransaction demoDigest demoMarshalCompressed demoSign 0 exCoinbaseBody [] True
     = (0, Inr exCoinbase)"
  "NewTransaction demoDigest demoMarshalCompressed demoSign 0 exSpendBody [exAlice] False
     = (1, Inr exSpend)"
  by (simp_all add: NewTransaction_def hash_def demo_defs ex_defs)

lemma exMoreTransactions_built:
  "NewTransaction demoDigest demoMarshalCompressed demoSign 0 (TxBody exSpendAgain) [exAlice]
     False = (1, Inr exSpendAgain)"
  "NewTransaction demoDigest demoMarshalCompressed demoSign 0 (TxBody exCoinbase9) [] True
     = (0, Inr exCoinbase9)"
  "NewTransaction demoDigest demoMarshalCompressed demoSign 0 (TxBody exOverflowSpend) [exAlice]
     False = (1, Inr exOverflowSpend)"
  "NewTransaction demoDigest demoMarshalCompressed demoSign 0 (TxBody exChangeCoinbase) [] flag
     = (0, Inr (exChangeCoinbase\<lparr>isCoinbase := flag\<rparr>))"
  "NewTransaction demoDigest demoMarshalCompressed demoSign 0 (TxBody exChangeSpend) [exAlice]
     False = (1, Inr exChangeSpend)"
  "NewTransaction demoDigest demoMarshalCompressed demoSign 0 (TxBody exFirstWithInput) [exBob]
     False = (1, Inr exFirstWithInput)"
  "NewTransaction demoDigest demoMarshalCompressed demoSign 0 (TxBody exBobCoinbase) [] True
     = (0, Inr exBobCoinbase)"
  "NewTransaction demoDigest demoMarshalCompressed demoSign 0 (TxBody exFeeCoinbase) [] True
     = (0, Inr exFeeCoinbase)"
  "NewTransaction demoDigest demoMarshalCompressed demoSign 0 (TxBody exFeeSpend) [exAlice]
     False = (1, Inr exFeeSpend)"
  "NewTransaction demoDigest demoMarshalCompressed demoSign 0 (TxBody exNoInput) [] False
     = (0, Inr exNoInput)"
  by (simp_all add: NewTransaction_def hash_def demo_defs ex_defs ex_more_defs)

lemma exBlocks_built:
  "NewBlock demoDigest demoMarshalText (Body exDoubleSpend) = Inr exDoubleSpend"
  "NewBlock demoDigest demoMarshalText (Body exOverflow) = Inr exOverflow"
  "NewBlock demoDigest demoMarshalText (Body (exFlagged flag)) = Inr (exFlagged flag)"
  "NewBlock demoDigest demoMarshalText (Body exUnflagged) = Inr exUnflagged"
  "NewBlock demoDigest demoMarshalText (Body exCoinbase11) = Inr exCoinbase11"
  "NewBlock demoDigest demoMarshalText (Body exTip) = Inr exTip"
  "NewBlock demoDigest demoMarshalText (Body exWrapped) = Inr exWrapped"
  "NewBlock demoDigest demoMarshalText (Body exFee) = Inr exFee"
  "NewBlock demoDigest demoMarshalText (Body (exUnreferenced flag)) = Inr (exUnreferenced flag)"
  by (simp_all add: NewBlock_def staticHash_def calculateBodyHash_def demo_defs ex_defs
      ex_more_defs)

lemma exGenesis_built:
  "NewBlock demoDigest demoMarshalText exGenesisBody = Inr exGenesis"
  by (simp add: NewBlock_def staticHash_def calculateBodyHash_def demo_defs ex_defs)

section \<open>Two-phase hashing\<close>

lemma staticHash_Nonce_Time:
  "staticHash H (body\<lparr>Nonce := n, Time := t\<rparr>) = staticHash H body"
  by (simp add: staticHash_def)

text \<open>
  Claim C8.  Let \<open>b\<close> be the block \<^verbatim>\<open>NewBlock\<close> makes of a body.  Then
  \<^verbatim>\<open>SetFields(nonce, time)\<close> on \<open>b\<close> leaves exactly the block that \<^verbatim>\<open>NewBlock\<close> computes
  from scratch for the same body with that nonce and time (and fails with the same error
  when that fails).  The digest it stores is the digest of the cached static hash, the
  nonce and the text of the time, and it is the same whatever the transaction list of
  the block is when \<^verbatim>\<open>SetFields\<close> runs: the transactions are not hashed again.
\<close>

theorem two_phase_hashing:
  assumes "NewBlock H mt body = Inr b"
  shows "(case NewBlock H mt (body\<lparr>Nonce := n, Time := t\<rparr>) of
            Inl err \<Rightarrow> fst (SetFields H mt b n t) = Some err
          | Inr b' \<Rightarrow> SetFields H mt b n t = (None, b'))
       \<and> (\<forall>timeText. mt t = Inr timeText \<longrightarrow>
             BodyHash (snd (SetFields H mt b n t)) = H (bodyStaticHash b @ le32 n @ timeText))
       \<and> (\<forall>ts. BodyHash (snd (SetFields H mt (b\<lparr>Body := (Body b)\<lparr>Transactions := ts\<rparr>\<rparr>) n t))
               = BodyHash (snd (SetFields H mt b n t)))"
proof -
  from assms have b: "Body b = body" "bodyStaticHash b = staticHash H body"
    by (auto simp: NewBlock_def Let_def split: sum.splits)
  have 1: "(case NewBlock H mt (body\<lparr>Nonce := n, Time := t\<rparr>) of
            Inl err \<Rightarrow> fst (SetFields H mt b n t) = Some err
          | Inr b' \<Rightarrow> SetFields H mt b n t = (None, b'))"
    using b
    by (cases "mt t")
       (auto simp: NewBlock_def SetFields_def Let_def calculateBodyHash_def staticHash_Nonce_Time)
  have 2: "\<forall>timeText. mt t = Inr timeText \<longrightarrow>
             BodyHash (snd (SetFields H mt b n t)) = H (bodyStaticHash b @ le32 n @ timeText)"
    by (simp add: SetFields_def Let_def calculateBodyHash_def)
  have 3: "\<forall>ts. BodyHash (snd (SetFields H mt (b\<lparr>Body := (Body b)\<lparr>Transactions := ts\<rparr>\<rparr>) n t))
               = BodyHash (snd (SetFields H mt b n t))"
    by (cases "mt t") (simp_all add: SetFields_def Let_def calculateBodyHash_def)
  from 1 2 3 show ?thesis by blast
qed

theorem two_phase_hashing_witness:
  "NewBlock demoDigest demoMarshalText exGenesisBody = Inr exGenesis
   \<and> NewBlock demoDigest demoMarshalText (exGenesisBody\<lparr>Nonce := 3, Time := 53\<rparr>)
       = Inr \<lparr>Body = exGenesisBody\<lparr>Nonce := 3, Time := 53\<rparr>, BodyHash = [50, 38, 183, 55],
              bodyStaticHash = [17, 54, 255, 189]\<rparr>
   \<and> SetFields demoDigest demoMarshalText exGenesis 3 53
       = (None, \<lparr>Body = exGenesisBody\<lparr>Nonce := 3, Time := 53\<rparr>, BodyHash = [50, 38, 183, 55],
                 bodyStaticHash = [17, 54, 255, 189]\<rparr>)
   \<and> demoMarshalText 53 = Inr [53, 0, 0, 0]
   \<and> BodyHash (snd (SetFields demoDigest demoMarshalText exGenesis 3 53))
       = demoDigest (bodyStaticHash exGenesis @ le32 3 @ [53, 0, 0, 0])
   \<and> BodyHash (snd (SetFields demoDigest demoMarshalText
                       (exGenesis\<lparr>Body := (Body exGenesis)\<lparr>Transactions := []\<rparr>\<rparr>) 3 53))
       = BodyHash (snd (SetFields demoDigest demoMarshalText exGenesis 3 53))"
proof -
  have h: "NewBlock demoDigest demoMarshalText exGenesisBody = Inr exGenesis"
    by (rule exGenesis_built)
  have n: "NewBlock demoDigest demoMarshalText (exGenesisBody\<lparr>Nonce := 3, Time := 53\<rparr>)
       = Inr \<lparr>Body = exGenesisBody\<lparr>Nonce := 3, Time := 53\<rparr>, BodyHash = [50, 38, 183, 55],
              bodyStaticHash = [17, 54, 255, 189]\<rparr>"
    by (simp add: NewBlock_def staticHash_def calculateBodyHash_def demo_defs ex_defs)
  have m: "demoMarshalText 53 = Inr [53, 0, 0, 0]"
    by (simp add: demo_defs)
  note w = two_phase_hashing [OF h, of 3 53]
  from w n have s: "SetFields demoDigest demoMarshalText exGenesis 3 53
       = (None, \<lparr>Body = exGenesisBody\<lparr>Nonce := 3, Time := 53\<rparr>, BodyHash = [50, 38, 183, 55],
                 bodyStaticHash = [17, 54, 255, 189]\<rparr>)"
    by simp
  from w m have d: "BodyHash (snd (SetFields demoDigest demoMarshalText exGenesis 3 53))
       = demoDigest (bodyStaticHash exGenesis @ le32 3 @ [53, 0, 0, 0])"
    by blast
  from w have i: "BodyHash (snd (SetFields demoDigest demoMarshalText
                       (exGenesis\<lparr>Body := (Body exGenesis)\<lparr>Transactions := []\<rparr>\<rparr>) 3 53))
       = BodyHash (snd (SetFields demoDigest demoMarshalText exGenesis 3 53))"
    by blast
  from h n s m d i show ?thesis by blast
qed

section \<open>Signatures of a new transaction\<close>

lemma signAll_signs:
  "signAll sg rnd h privs acc = (rnd', Inr sigs) \<Longrightarrow>
     \<exists>rs new. sigs = acc @ new \<and> length new = length privs
       \<and> length rs = Suc (length privs) \<and> rs ! 0 = rnd \<and> rs ! length privs = rnd'
       \<and> (\<forall>i < length privs. sg (rs ! i) (privs ! i) h = (rs ! Suc i, Inr (new ! i)))"
proof (induction privs arbitrary: rnd acc)
  case Nil
  then have "sigs = acc @ [] \<and> length ([] :: OwnerSignature list) = length ([] :: PrivateKey list)
       \<and> length [rnd] = Suc 0 \<and> [rnd] ! 0 = rnd \<and> [rnd] ! 0 = rnd'"
    by simp
  then show ?case by (intro exI [of _ "[rnd]"] exI [of _ "[]"]) simp
next
  case (Cons p privs)
  from Cons.prems obtain r1 s1 where first: "sg rnd p h = (r1, Inr s1)"
    and rest: "signAll sg r1 h privs (acc @ [s1]) = (rnd', Inr sigs)"
    by (auto split: prod.splits sum.splits)
  from Cons.IH [OF rest] obtain rs new where ih:
    "sigs = (acc @ [s1]) @ new" "length new = length privs" "length rs = Suc (length privs)"
    "rs ! 0 = r1" "rs ! length privs = rnd'"
    "\<forall>i < length privs. sg (rs ! i) (privs ! i) h = (rs ! Suc i, Inr (new ! i))"
    by blast
  have step: "sg ((rnd # rs) ! i) ((p # privs) ! i) h = ((rnd # rs) ! Suc i, Inr ((s1 # new) ! i))"
    if "i < length (p # privs)" for i
  proof (cases i)
    case 0
    with first ih(4) show ?thesis by simp
  next
    case (Suc j)
    with that have "j < length privs" by simp
    with ih(6) Suc show ?thesis by simp
  qed
  have "sigs = acc @ (s1 # new) \<and> length (s1 # new) = length (p # privs)
       \<and> length (rnd # rs) = Suc (length (p # privs)) \<and> (rnd # rs) ! 0 = rnd
       \<and> (rnd # rs) ! length (p # privs) = rnd'
       \<and> (\<forall>i < length (p # privs).
             sg ((rnd # rs) ! i) ((p # privs) ! i) h = ((rnd # rs) ! Suc i, Inr ((s1 # new) ! i)))"
    using ih(1,2,3,5) step by simp
  then show ?case by blast
qed

text \<open>
  Claim C2, as amended.  \<^verbatim>\<open>NewTransaction\<close> does not look at \<^verbatim>\<open>isCoinbase\<close> when it
  signs.  A transaction it returns holds the given body, the hash of that body, and one
  signature per signing key, in the order of the keys: the signature at index \<open>i\<close> is what
  \<^verbatim>\<open>ecdsa.Sign\<close> returns for the key at index \<open>i\<close> and the body hash, the random source
  being passed on from one call to the next.  The flag is only stored, and the call with
  the other value of the flag returns the same transaction but for the flag.  So the
  signature list of a coinbase is empty exactly when no key is given.
\<close>

theorem NewTransaction_signs_every_key:
  assumes "NewTransaction H mc sg rnd body privs coinbase = (rnd', Inr t)"
  shows "TxBody t = body \<and> TxBodyHash t = hash H mc body \<and> isCoinbase t = coinbase
       \<and> length (OwnerSignatures t) = length privs
       \<and> (\<exists>rs. length rs = Suc (length privs) \<and> rs ! 0 = rnd \<and> rs ! length privs = rnd'
             \<and> (\<forall>i < length privs.
                   sg (rs ! i) (privs ! i) (hash H mc body)
                     = (rs ! Suc i, Inr (OwnerSignatures t ! i))))
       \<and> NewTransaction H mc sg rnd body privs (\<not> coinbase)
           = (rnd', Inr (t\<lparr>isCoinbase := \<not> coinbase\<rparr>))"
proof -
  from assms obtain sigs where s: "signAll sg rnd (hash H mc body) privs [] = (rnd', Inr sigs)"
    and t: "t = \<lparr>TxBody = body, TxBodyHash = hash H mc body, OwnerSignatures = sigs,
                  isCoinbase = coinbase\<rparr>"
    by (auto simp: NewTransaction_def Let_def split: prod.splits sum.splits)
  from signAll_signs [OF s] obtain rs where rs:
    "length sigs = length privs" "length rs = Suc (length privs)" "rs ! 0 = rnd"
    "rs ! length privs = rnd'"
    "\<forall>i < length privs. sg (rs ! i) (privs ! i) (hash H mc body) = (rs ! Suc i, Inr (sigs ! i))"
    by auto
  have other: "NewTransaction H mc sg rnd body privs (\<not> coinbase)
           = (rnd', Inr (t\<lparr>isCoinbase := \<not> coinbase\<rparr>))"
    using s t by (simp add: NewTransaction_def Let_def)
  from t rs other show ?thesis by auto
qed

theorem NewTransaction_signs_every_key_witness:
  "NewTransaction demoDigest demoMarshalCompressed demoSign 0 exCoinbaseBody [exAlice] True
     = (1, Inr (exCoinbase\<lparr>OwnerSignatures := [\<lparr>R = 5, S = 13731107\<rparr>]\<rparr>))
   \<and> TxBodyHash (exCoinbase\<lparr>OwnerSignatures := [\<lparr>R = 5, S = 13731107\<rparr>]\<rparr>)
       = hash demoDigest demoMarshalCompressed exCoinbaseBody
   \<and> length (OwnerSignatures (exCoinbase\<lparr>OwnerSignatures := [\<lparr>R = 5, S = 13731107\<rparr>]\<rparr>))
       = length [exAlice]
   \<and> demoSign 0 exAlice (hash demoDigest demoMarshalCompressed exCoinbaseBody)
       = (1, Inr \<lparr>R = 5, S = 13731107\<rparr>)
   \<and> NewTransaction demoDigest demoMarshalCompressed demoSign 0 exCoinbaseBody [exAlice] False
     = (1, Inr (exCoinbase\<lparr>OwnerSignatures := [\<lparr>R = 5, S = 13731107\<rparr>], isCoinbase := False\<rparr>))"
proof -
  have h: "NewTransaction demoDigest demoMarshalCompressed demoSign 0 exCoinbaseBody [exAlice] True
     = (1, Inr (exCoinbase\<lparr>OwnerSignatures := [\<lparr>R = 5, S = 13731107\<rparr>]\<rparr>))"
    by (simp add: NewTransaction_def hash_def demo_defs ex_defs)
  note w = NewTransaction_signs_every_key [OF h]
  from w have a: "TxBodyHash (exCoinbase\<lparr>OwnerSignatures := [\<lparr>R = 5, S = 13731107\<rparr>]\<rparr>)
       = hash demoDigest demoMarshalCompressed exCoinbaseBody"
    and b: "length (OwnerSignatures (exCoinbase\<lparr>OwnerSignatures := [\<lparr>R = 5, S = 13731107\<rparr>]\<rparr>))
       = length [exAlice]"
    and c: "NewTransaction demoDigest demoMarshalCompressed demoSign 0 exCoinbaseBody [exAlice] False
     = (1, Inr (exCoinbase\<lparr>OwnerSignatures := [\<lparr>R = 5, S = 13731107\<rparr>], isCoinbase := False\<rparr>))"
    by simp_all
  from w obtain rs where rs: "rs ! 0 = 0" "rs ! length [exAlice] = 1"
    "\<forall>i < length [exAlice].
        demoSign (rs ! i) ([exAlice] ! i) (hash demoDigest demoMarshalCompressed exCoinbaseBody)
          = (rs ! Suc i,
             Inr (OwnerSignatures (exCoinbase\<lparr>OwnerSignatures := [\<lparr>R = 5, S = 13731107\<rparr>]\<rparr>) ! i))"
    by blast
  from rs(3) [rule_format, of 0] rs(1,2)
  have d: "demoSign 0 exAlice (hash demoDigest demoMarshalCompressed exCoinbaseBody)
       = (1, Inr \<lparr>R = 5, S = 13731107\<rparr>)"
    by simp
  from h a b c d show ?thesis by blast
qed

text \<open>
  The claim as stated fails: called with \<^verbatim>\<open>isCoinbase = true\<close> and Alice's key, the
  function returns a coinbase transaction that carries Alice's signature.
\<close>

theorem NewTransaction_coinbase_counterexample:
  "NewTransaction demoDigest demoMarshalCompressed demoSign 0 exCoinbaseBody [exAlice] True
     = (1, Inr \<lparr>TxBody = exCoinbaseBody, TxBodyHash = [237, 180, 65, 214],
                 OwnerSignatures = [\<lparr>R = 5, S = 13731107\<rparr>], isCoinbase = True\<rparr>)
   \<and> OwnerSignatures \<lparr>TxBody = exCoinbaseBody, TxBodyHash = [237, 180, 65, 214],
                 OwnerSignatures = [\<lparr>R = 5, S = 13731107\<rparr>], isCoinbase = True\<rparr> \<noteq> []"
  by (simp add: NewTransaction_def hash_def demo_defs ex_defs)

section \<open>Mining\<close>

declare mineLoop.simps [simp del]

lemma SetFields_cases:
  "SetFields H mt blk n t =
     (case mt t of Inl e \<Rightarrow> (Some e, blk\<lparr>Body := (Body blk)\<lparr>Nonce := n, Time := t\<rparr>\<rparr>)
      | Inr timeText \<Rightarrow> (None, \<lparr>Body = (Body blk)\<lparr>Nonce := n, Time := t\<rparr>,
                           BodyHash = H (bodyStaticHash blk @ le32 n @ timeText),
                           bodyStaticHash = bodyStaticHash blk\<rparr>))"
  by (cases "mt t") (simp_all add: SetFields_def Let_def calculateBodyHash_def)

lemma mineLoop_result:
  "mineLoop H mt clock k blk nonce = (Inr b, k') \<Longrightarrow>
     nonceIsValid b \<and> bodyStaticHash b = bodyStaticHash blk
     \<and> Body b = (Body blk)\<lparr>Nonce := Nonce (Body b), Time := Time (Body b)\<rparr>
     \<and> calculateBodyHash H mt (bodyStaticHash b) (Nonce (Body b)) (Time (Body b)) = Inr (BodyHash b)"
proof (induction H mt clock k blk nonce rule: mineLoop.induct)
  case (1 H mt clock k newBlock nonce)
  show ?case
  proof (cases "mt (clock k)")
    case (Inl e)
    with "1.prems" show ?thesis
      by (subst (asm) mineLoop.simps) (simp add: SetFields_cases)
  next
    case (Inr timeText)
    define b1 where "b1 = \<lparr>Body = (Body newBlock)\<lparr>Nonce := nonce, Time := clock k\<rparr>,
                           BodyHash = H (bodyStaticHash newBlock @ le32 nonce @ timeText),
                           bodyStaticHash = bodyStaticHash newBlock\<rparr>"
    have sf: "SetFields H mt newBlock nonce (clock k) = (None, b1)"
      by (simp add: SetFields_cases Inr b1_def)
    show ?thesis
    proof (cases "nonceIsValid b1")
      case True
      with "1.prems" sf have "b = b1"
        by (subst (asm) mineLoop.simps) simp
      with True Inr show ?thesis
        by (simp add: b1_def calculateBodyHash_def)
    next
      case False
      with "1.prems" sf have ne: "nonce + 1 \<noteq> 0"
        and rec: "mineLoop H mt clock (Suc k) b1 (nonce + 1) = (Inr b, k')"
        by (subst (asm) mineLoop.simps, simp split: if_splits)+
      from "1.IH" [OF sf [symmetric] refl False ne rec]
      have ih: "nonceIsValid b" "bodyStaticHash b = bodyStaticHash b1"
        "Body b = (Body b1)\<lparr>Nonce := Nonce (Body b), Time := Time (Body b)\<rparr>"
        "calculateBodyHash H mt (bodyStaticHash b) (Nonce (Body b)) (Time (Body b))
           = Inr (BodyHash b)"
        by blast+
      have "Body b = (Body newBlock)\<lparr>Nonce := Nonce (Body b), Time := Time (Body b)\<rparr>"
        by (subst ih(3)) (simp add: b1_def)
      with ih show ?thesis by (simp add: b1_def)
    qed
  qed
qed

lemma unat_uint32_less: "unat (n :: uint32) < 2 ^ 32"
  using unsigned_less [of n] by simp

lemma unat_succ: "(n :: uint32) + 1 \<noteq> 0 \<Longrightarrow> unat (n + 1) = Suc (unat n)"
  using unatSuc [of n] by (simp add: add.commute)

lemma unat_last: "(n :: uint32) + 1 = 0 \<Longrightarrow> Suc (unat n) = 2 ^ 32"
proof -
  assume "n + 1 = 0"
  then have "n = - 1" by (simp add: eq_neg_iff_add_eq_0)
  then show ?thesis by (simp add: unsigned_minus_1_eq_mask mask_eq_exp_minus_1)
qed

lemma mineLoop_exhausted:
  assumes "k = unat nonce"
    and "\<forall>m. unat nonce \<le> m \<and> m < 2 ^ 32 \<longrightarrow>
           (\<exists>timeText. mt (clock m) = Inr timeText
              \<and> \<not> leadingZeros (H (bodyStaticHash blk @ le32 (of_nat m) @ timeText))
                    \<ge> MinimumRequiredLeadingZeros)"
  shows "mineLoop H mt clock k blk nonce = (Inl NonceSpaceExhausted, 2 ^ 32)"
  using assms
proof (induction H mt clock k blk nonce rule: mineLoop.induct)
  case (1 H mt clock k newBlock nonce)
  from "1.prems"(2) [rule_format, of "unat nonce"] unat_uint32_less [of nonce]
  obtain timeText where tt: "mt (clock k) = Inr timeText"
    and inv: "\<not> leadingZeros (H (bodyStaticHash newBlock @ le32 nonce @ timeText))
                    \<ge> MinimumRequiredLeadingZeros"
    using "1.prems"(1) by auto
  define b1 where "b1 = \<lparr>Body = (Body newBlock)\<lparr>Nonce := nonce, Time := clock k\<rparr>,
                         BodyHash = H (bodyStaticHash newBlock @ le32 nonce @ timeText),
                         bodyStaticHash = bodyStaticHash newBlock\<rparr>"
  have sf: "SetFields H mt newBlock nonce (clock k) = (None, b1)"
    by (simp add: SetFields_cases tt b1_def)
  have nv: "\<not> nonceIsValid b1"
    using inv by (simp add: nonceIsValid_def b1_def)
  show ?case
  proof (cases "nonce + 1 = 0")
    case True
    then have "Suc k = 2 ^ 32"
      using unat_last [of nonce] "1.prems"(1) by simp
    with sf nv True show ?thesis
      by (subst mineLoop.simps) simp
  next
    case False
    have k': "Suc k = unat (nonce + 1)"
      using unat_succ [OF False] "1.prems"(1) by simp
    have rest: "\<forall>m. unat (nonce + 1) \<le> m \<and> m < 2 ^ 32 \<longrightarrow>
           (\<exists>timeText. mt (clock m) = Inr timeText
              \<and> \<not> leadingZeros (H (bodyStaticHash b1 @ le32 (of_nat m) @ timeText))
                    \<ge> MinimumRequiredLeadingZeros)"
      using "1.prems"(2) unat_succ [OF False] by (simp add: b1_def)
    from "1.IH" [OF sf [symmetric] refl nv False k' rest] sf nv False
    show ?thesis
      by (subst mineLoop.simps) simp
  qed
qed

lemma mineLoop_count:
  assumes "mineLoop H mt clock k blk nonce = (r, k')" and "k = unat nonce"
  shows "k < k' \<and> k' \<le> 2 ^ 32"
  using assms
proof (induction H mt clock k blk nonce rule: mineLoop.induct)
  case (1 H mt clock k newBlock nonce)
  have kb: "Suc k \<le> 2 ^ 32"
    using unat_uint32_less [of nonce] "1.prems"(2) by simp
  show ?case
  proof (cases "SetFields H mt newBlock nonce (clock k)")
    case (Pair e b1)
    show ?thesis
    proof (cases "e = None \<and> \<not> nonceIsValid b1 \<and> nonce + 1 \<noteq> 0")
      case True
      then have e: "e = None" and nv: "\<not> nonceIsValid b1" and ne: "nonce + 1 \<noteq> 0"
        by simp_all
      have sf: "(None, b1) = SetFields H mt newBlock nonce (clock k)"
        using Pair e by simp
      have rec: "mineLoop H mt clock (Suc k) b1 (nonce + 1) = (r, k')"
        using "1.prems"(1) Pair e nv ne by (subst (asm) mineLoop.simps) simp
      have k': "Suc k = unat (nonce + 1)"
        using unat_succ [OF ne] "1.prems"(2) by simp
      from "1.IH" [OF sf refl nv ne rec k'] show ?thesis by simp
    next
      case False
      then have "k' = Suc k"
        using "1.prems"(1) Pair
        by (subst (asm) mineLoop.simps) (auto split: option.splits if_splits)
      with kb show ?thesis by simp
    qed
  qed
qed

lemma mineLoop_trials:
  assumes "mineLoop H mt clock k blk nonce = (Inr b, k')" and "k = unat nonce"
  shows "k' = Suc (unat (Nonce (Body b))) \<and> Time (Body b) = clock (unat (Nonce (Body b)))
       \<and> (\<forall>m. unat nonce \<le> m \<and> m < unat (Nonce (Body b)) \<longrightarrow>
            (\<exists>timeText. mt (clock m) = Inr timeText
              \<and> \<not> leadingZeros (H (bodyStaticHash blk @ le32 (of_nat m) @ timeText))
                    \<ge> MinimumRequiredLeadingZeros))"
  using assms
proof (induction H mt clock k blk nonce rule: mineLoop.induct)
  case (1 H mt clock k newBlock nonce)
  show ?case
  proof (cases "mt (clock k)")
    case (Inl e)
    with "1.prems" show ?thesis
      by (subst (asm) mineLoop.simps) (simp add: SetFields_cases)
  next
    case (Inr timeText)
    define b1 where "b1 = \<lparr>Body = (Body newBlock)\<lparr>Nonce := nonce, Time := clock k\<rparr>,
                           BodyHash = H (bodyStaticHash newBlock @ le32 nonce @ timeText),
                           bodyStaticHash = bodyStaticHash newBlock\<rparr>"
    have sf: "SetFields H mt newBlock nonce (clock k) = (None, b1)"
      by (simp add: SetFields_cases Inr b1_def)
    show ?thesis
    proof (cases "nonceIsValid b1")
      case True
      with "1.prems" sf have "b = b1" "k' = Suc k"
        by (subst (asm) mineLoop.simps, simp)+
      with "1.prems"(2) show ?thesis
        by (simp add: b1_def)
    next
      case False
      with "1.prems" sf have ne: "nonce + 1 \<noteq> 0"
        and rec: "mineLoop H mt clock (Suc k) b1 (nonce + 1) = (Inr b, k')"
        by (subst (asm) mineLoop.simps, simp split: if_splits)+
      have k1: "Suc k = unat (nonce + 1)"
        using unat_succ [OF ne] "1.prems"(2) by simp
      from "1.IH" [OF sf [symmetric] refl False ne rec k1]
      have ih: "k' = Suc (unat (Nonce (Body b)))" "Time (Body b) = clock (unat (Nonce (Body b)))"
        "\<forall>m. unat (nonce + 1) \<le> m \<and> m < unat (Nonce (Body b)) \<longrightarrow>
            (\<exists>timeText. mt (clock m) = Inr timeText
              \<and> \<not> leadingZeros (H (bodyStaticHash b1 @ le32 (of_nat m) @ timeText))
                    \<ge> MinimumRequiredLeadingZeros)"
        by blast+
      have here: "\<exists>timeText. mt (clock (unat nonce)) = Inr timeText
              \<and> \<not> leadingZeros (H (bodyStaticHash newBlock @ le32 (of_nat (unat nonce)) @ timeText))
                    \<ge> MinimumRequiredLeadingZeros"
        using Inr False "1.prems"(2) by (simp add: nonceIsValid_def b1_def)
      have "\<forall>m. unat nonce \<le> m \<and> m < unat (Nonce (Body b)) \<longrightarrow>
            (\<exists>timeText. mt (clock m) = Inr timeText
              \<and> \<not> leadingZeros (H (bodyStaticHash newBlock @ le32 (of_nat m) @ timeText))
                    \<ge> MinimumRequiredLeadingZeros)"
      proof (intro allI impI)
        fix m assume m: "unat nonce \<le> m \<and> m < unat (Nonce (Body b))"
        show "\<exists>timeText. mt (clock m) = Inr timeText
              \<and> \<not> leadingZeros (H (bodyStaticHash newBlock @ le32 (of_nat m) @ timeText))
                    \<ge> MinimumRequiredLeadingZeros"
        proof (cases "m = unat nonce")
          case True
          with here show ?thesis by simp
        next
          case False
          with m have "unat (nonce + 1) \<le> m \<and> m < unat (Nonce (Body b))"
            using unat_succ [OF ne] by simp
          with ih(3) show ?thesis by (simp add: b1_def)
        qed
      qed
      with ih show ?thesis by simp
    qed
  qed
qed

lemma exGenesis_verified: "verifyExceptNonce demoVerify 100 [] exGenesis = Inr ()"
  by (simp add: verifyExceptNonce_def verifyBlockFields_def chainTransactions_def
      Transaction_String_def hex_EncodeToString_def hexdigit_def OutputValue_def
      CurrentVersion_def GenesisId_def MiningReward_def demo_defs ex_defs)

lemma exMine:
  "Mine demoDigest demoMarshalText demoVerify 100 (\<lambda>k. 2 + int k) \<lparr>Blocks = []\<rparr> exGenesisBody
     = (Inr \<lparr>Body = exGenesisBody\<lparr>Nonce := 2, Time := 4\<rparr>, BodyHash = [36, 179, 191, 207],
              bodyStaticHash = [17, 54, 255, 189]\<rparr>, 3)"
  apply (simp add: Mine_def exGenesis_built exGenesis_verified)
  apply (simp add: mineLoop.simps SetFields_def calculateBodyHash_def nonceIsValid_def
      leadingZeros_def LeadingZeros8_def MinimumRequiredLeadingZeros_def demo_defs exGenesis_def)
  done

text \<open>
  Claim C3.  A block that \<^verbatim>\<open>Mine\<close> returns meets the difficulty: its \<open>BodyHash\<close> has at
  least \<open>MinimumRequiredLeadingZeros\<close> leading zero bits, and it is the digest of the
  static hash of its body, its nonce and its time; its body is the given body with that
  nonce and time.
\<close>

theorem Mine_difficulty:
  assumes "Mine H mt vf now clock chain newBody = (Inr b, k)"
  shows "leadingZeros (BodyHash b) \<ge> MinimumRequiredLeadingZeros
       \<and> calculateBodyHash H mt (staticHash H (Body b)) (Nonce (Body b)) (Time (Body b))
           = Inr (BodyHash b)
       \<and> Body b = newBody\<lparr>Nonce := Nonce (Body b), Time := Time (Body b)\<rparr>"
proof -
  from assms obtain nb where nb: "NewBlock H mt newBody = Inr nb"
    and loop: "mineLoop H mt clock 0 nb 0 = (Inr b, k)"
    by (auto simp: Mine_def split: sum.splits)
  from nb have nbf: "Body nb = newBody" "bodyStaticHash nb = staticHash H newBody"
    by (auto simp: NewBlock_def Let_def split: sum.splits)
  from mineLoop_result [OF loop]
  have r: "nonceIsValid b" "bodyStaticHash b = bodyStaticHash nb"
    "Body b = (Body nb)\<lparr>Nonce := Nonce (Body b), Time := Time (Body b)\<rparr>"
    "calculateBodyHash H mt (bodyStaticHash b) (Nonce (Body b)) (Time (Body b)) = Inr (BodyHash b)"
    by blast+
  have body: "Body b = newBody\<lparr>Nonce := Nonce (Body b), Time := Time (Body b)\<rparr>"
    using r(3) nbf(1) by simp
  have "staticHash H (Body b) = staticHash H newBody"
    by (subst body) (rule staticHash_Nonce_Time)
  with r nbf body show ?thesis
    by (simp add: nonceIsValid_def)
qed

theorem Mine_difficulty_witness:
  "Mine demoDigest demoMarshalText demoVerify 100 (\<lambda>k. 2 + int k) \<lparr>Blocks = []\<rparr> exGenesisBody
     = (Inr \<lparr>Body = exGenesisBody\<lparr>Nonce := 2, Time := 4\<rparr>, BodyHash = [36, 179, 191, 207],
              bodyStaticHash = [17, 54, 255, 189]\<rparr>, 3)
   \<and> leadingZeros [36, 179, 191, 207] \<ge> MinimumRequiredLeadingZeros
   \<and> calculateBodyHash demoDigest demoMarshalText
         (staticHash demoDigest (exGenesisBody\<lparr>Nonce := 2, Time := 4\<rparr>)) 2 4
       = Inr [36, 179, 191, 207]"
  using Mine_difficulty [OF exMine] exMine by simp

lemma SetFields_static:
  "bodyStaticHash nb = st \<Longrightarrow>
   (fst (SetFields H mt nb n t) = None \<and> \<not> nonceIsValid (snd (SetFields H mt nb n t)))
   = (\<exists>timeText. mt t = Inr timeText
        \<and> \<not> leadingZeros (H (st @ le32 n @ timeText)) \<ge> MinimumRequiredLeadingZeros)"
  by (cases "mt t") (auto simp: SetFields_cases nonceIsValid_def)

text \<open>
  Claim C4.  \<^verbatim>\<open>Mine\<close> is a total function: its loop is defined by a recursion that
  terminates because the distance of the nonce to \<open>2 ^ 32\<close> decreases.  It takes at most
  \<open>2 ^ 32\<close> readings of the clock, one per trial.  If every one of the \<open>2 ^ 32\<close> trials
  (nonce \<open>m\<close> at the \<open>m\<close>-th reading) computes a digest that misses the difficulty, the
  result is \<open>NonceSpaceExhausted\<close> after exactly \<open>2 ^ 32\<close> trials.  If a block is returned
  with nonce \<open>n\<close>, the search took \<open>n + 1\<close> trials: the nonces \<open>0, \<dots>, n - 1\<close> were each tried
  once and missed, and \<open>n\<close> was tried at the \<open>n\<close>-th reading and met the difficulty.
\<close>

theorem Mine_terminates:
  "snd (Mine H mt vf now clock chain newBody) \<le> 2 ^ 32
   \<and> (\<forall>nb. NewBlock H mt newBody = Inr nb
          \<and> verifyExceptNonce vf now (Blocks chain) nb = Inr ()
          \<and> (\<forall>m < 2 ^ 32. fst (SetFields H mt nb (of_nat m) (clock m)) = None
                 \<and> \<not> nonceIsValid (snd (SetFields H mt nb (of_nat m) (clock m))))
        \<longrightarrow> Mine H mt vf now clock chain newBody = (Inl NonceSpaceExhausted, 2 ^ 32))
   \<and> (\<forall>nb b. NewBlock H mt newBody = Inr nb
          \<and> fst (Mine H mt vf now clock chain newBody) = Inr b
        \<longrightarrow> snd (Mine H mt vf now clock chain newBody) = Suc (unat (Nonce (Body b)))
          \<and> Time (Body b) = clock (unat (Nonce (Body b)))
          \<and> nonceIsValid b
          \<and> (\<forall>m < unat (Nonce (Body b)).
                 fst (SetFields H mt nb (of_nat m) (clock m)) = None
                 \<and> \<not> nonceIsValid (snd (SetFields H mt nb (of_nat m) (clock m)))))"
proof (intro conjI allI impI)
  show "snd (Mine H mt vf now clock chain newBody) \<le> 2 ^ 32"
  proof (cases "\<exists>nb. NewBlock H mt newBody = Inr nb
                  \<and> verifyExceptNonce vf now (Blocks chain) nb = Inr ()")
    case True
    then obtain nb where "NewBlock H mt newBody = Inr nb"
      "verifyExceptNonce vf now (Blocks chain) nb = Inr ()" by blast
    then have "Mine H mt vf now clock chain newBody = mineLoop H mt clock 0 nb 0"
      by (simp add: Mine_def)
    moreover obtain r k where "mineLoop H mt clock 0 nb 0 = (r, k)"
      by (cases "mineLoop H mt clock 0 nb 0")
    ultimately show ?thesis
      using mineLoop_count [of H mt clock 0 nb 0 r k] by simp
  next
    case False
    then have "snd (Mine H mt vf now clock chain newBody) = 0"
      by (auto simp: Mine_def split: sum.splits)
    then show ?thesis by simp
  qed
next
  fix nb
  assume a: "NewBlock H mt newBody = Inr nb
          \<and> verifyExceptNonce vf now (Blocks chain) nb = Inr ()
          \<and> (\<forall>m < 2 ^ 32. fst (SetFields H mt nb (of_nat m) (clock m)) = None
                 \<and> \<not> nonceIsValid (snd (SetFields H mt nb (of_nat m) (clock m))))"
  then have eq: "Mine H mt vf now clock chain newBody = mineLoop H mt clock 0 nb 0"
    by (simp add: Mine_def)
  have "\<forall>m. unat (0 :: uint32) \<le> m \<and> m < 2 ^ 32 \<longrightarrow>
           (\<exists>timeText. mt (clock m) = Inr timeText
              \<and> \<not> leadingZeros (H (bodyStaticHash nb @ le32 (of_nat m) @ timeText))
                    \<ge> MinimumRequiredLeadingZeros)"
    using a SetFields_static [OF refl, of H mt nb] by blast
  from mineLoop_exhausted [OF _ this] eq
  show "Mine H mt vf now clock chain newBody = (Inl NonceSpaceExhausted, 2 ^ 32)"
    by simp
next
  fix nb b
  assume a: "NewBlock H mt newBody = Inr nb
          \<and> fst (Mine H mt vf now clock chain newBody) = Inr b"
  then obtain k where loop: "mineLoop H mt clock 0 nb 0 = (Inr b, k)"
    and eq: "Mine H mt vf now clock chain newBody = (Inr b, k)"
    by (cases "mineLoop H mt clock 0 nb 0") (auto simp: Mine_def split: sum.splits)
  from mineLoop_trials [OF loop]
  have t: "k = Suc (unat (Nonce (Body b)))" "Time (Body b) = clock (unat (Nonce (Body b)))"
    "\<forall>m. unat (0 :: uint32) \<le> m \<and> m < unat (Nonce (Body b)) \<longrightarrow>
            (\<exists>timeText. mt (clock m) = Inr timeText
              \<and> \<not> leadingZeros (H (bodyStaticHash nb @ le32 (of_nat m) @ timeText))
                    \<ge> MinimumRequiredLeadingZeros)"
    by simp_all
  show "snd (Mine H mt vf now clock chain newBody) = Suc (unat (Nonce (Body b)))"
    using eq t(1) by simp
  show "Time (Body b) = clock (unat (Nonce (Body b)))" by (rule t(2))
  show "nonceIsValid b" using mineLoop_result [OF loop] by blast
  fix m assume "m < unat (Nonce (Body b))"
  with t(3) SetFields_static [OF refl, of H mt nb "of_nat m" "clock m"]
  have f: "fst (SetFields H mt nb (of_nat m) (clock m)) = None
                 \<and> \<not> nonceIsValid (snd (SetFields H mt nb (of_nat m) (clock m)))"
    by simp
  from f show "fst (SetFields H mt nb (of_nat m) (clock m)) = None" by blast
  from f show "\<not> nonceIsValid (snd (SetFields H mt nb (of_nat m) (clock m)))" by blast
qed

theorem Mine_terminates_witness:
  "Mine (\<lambda>data. [255]) demoMarshalText demoVerify 100 (\<lambda>k. 0) \<lparr>Blocks = []\<rparr> exGenesisBody
     = (Inl NonceSpaceExhausted, 2 ^ 32)
   \<and> snd (Mine demoDigest demoMarshalText demoVerify 100 (\<lambda>k. 2 + int k) \<lparr>Blocks = []\<rparr>
            exGenesisBody) = Suc (unat (2 :: uint32))
   \<and> \<not> nonceIsValid (snd (SetFields demoDigest demoMarshalText exGenesis 0 2))
   \<and> \<not> nonceIsValid (snd (SetFields demoDigest demoMarshalText exGenesis 1 3))"
proof -
  let ?nb = "\<lparr>Body = exGenesisBody, BodyHash = [255], bodyStaticHash = [255]\<rparr>"
  have nb: "NewBlock (\<lambda>data. [255]) demoMarshalText exGenesisBody = Inr ?nb"
    by (simp add: NewBlock_def staticHash_def calculateBodyHash_def demo_defs ex_defs)
  have ok: "verifyExceptNonce demoVerify 100 (Blocks \<lparr>Blocks = []\<rparr>) ?nb = Inr ()"
    by (simp add: verifyExceptNonce_def verifyBlockFields_def chainTransactions_def
        Transaction_String_def hex_EncodeToString_def hexdigit_def OutputValue_def
        CurrentVersion_def GenesisId_def MiningReward_def demo_defs ex_defs)
  have miss: "\<forall>m < 2 ^ 32. fst (SetFields (\<lambda>data. [255]) demoMarshalText ?nb (of_nat m) 0) = None
                 \<and> \<not> nonceIsValid (snd (SetFields (\<lambda>data. [255]) demoMarshalText ?nb (of_nat m) 0))"
    by (simp add: SetFields_def calculateBodyHash_def nonceIsValid_def leadingZeros_def
        LeadingZeros8_def MinimumRequiredLeadingZeros_def demoMarshalText_def)
  have 1: "Mine (\<lambda>data. [255]) demoMarshalText demoVerify 100 (\<lambda>k. 0) \<lparr>Blocks = []\<rparr> exGenesisBody
     = (Inl NonceSpaceExhausted, 2 ^ 32)"
    using Mine_terminates [of "\<lambda>data. [255]" demoMarshalText demoVerify 100 "\<lambda>k. 0"
        "\<lparr>Blocks = []\<rparr>" exGenesisBody] nb ok miss
    by blast
  note w = Mine_terminates [of demoDigest demoMarshalText demoVerify 100 "\<lambda>k. 2 + int k"
        "\<lparr>Blocks = []\<rparr>" exGenesisBody]
  have f: "fst (Mine demoDigest demoMarshalText demoVerify 100 (\<lambda>k. 2 + int k) \<lparr>Blocks = []\<rparr>
            exGenesisBody)
     = Inr \<lparr>Body = exGenesisBody\<lparr>Nonce := 2, Time := 4\<rparr>, BodyHash = [36, 179, 191, 207],
              bodyStaticHash = [17, 54, 255, 189]\<rparr>"
    by (simp add: exMine)
  from w exGenesis_built f
  have 2: "snd (Mine demoDigest demoMarshalText demoVerify 100 (\<lambda>k. 2 + int k) \<lparr>Blocks = []\<rparr>
            exGenesisBody) = Suc (unat (2 :: uint32))"
    and 3: "\<forall>m < unat (2 :: uint32).
              fst (SetFields demoDigest demoMarshalText exGenesis (of_nat m) (2 + int m)) = None
              \<and> \<not> nonceIsValid (snd (SetFields demoDigest demoMarshalText exGenesis (of_nat m)
                                        (2 + int m)))"
    by auto
  from 3 [rule_format, of 0] 3 [rule_format, of 1]
  have 4: "\<not> nonceIsValid (snd (SetFields demoDigest demoMarshalText exGenesis 0 2))"
    and 5: "\<not> nonceIsValid (snd (SetFields demoDigest demoMarshalText exGenesis 1 3))"
    by simp_all
  from 1 2 4 5 show ?thesis by blast
qed

section \<open>Validation\<close>

lemma addTransactions_Cons:
  "addTransactions m (t # ts) = addTransactions (m(Transaction_String t \<mapsto> t)) ts"
  by (simp add: addTransactions_def)

lemma addTransactions_Nil: "addTransactions m [] = m"
  by (simp add: addTransactions_def)


lemma sumInputs_sum:
  "sumInputs vf m h hs sigs acc = Inr e \<Longrightarrow>
     (\<forall>x \<in> set hs. m (hex_EncodeToString x) \<noteq> None)
     \<and> e = acc + sum_list (map (\<lambda>x. OutputValue (the (m (hex_EncodeToString x)))) hs)"
proof (induction hs arbitrary: sigs acc)
  case Nil
  then show ?case by simp
next
  case (Cons x hs)
  from Cons.prems obtain tx sg sigs' where
    tx: "m (hex_EncodeToString x) = Some tx" and sigs: "sigs = sg # sigs'"
    and rec: "sumInputs vf m h hs sigs' (acc + OutputValue tx) = Inr e"
    by (auto split: option.splits list.splits if_splits)
  from Cons.IH [OF rec] tx show ?case
    by (simp add: add.assoc)
qed

lemma verifyTransactions_values:
  "verifyTransactions vf m fees ts = Inr f \<Longrightarrow> i < length ts \<Longrightarrow>
     (\<forall>x \<in> set (InputTransactionHashes (TxBody (ts ! i))).
         addTransactions m (take i ts) (hex_EncodeToString x) \<noteq> None)
     \<and> InputValue (TxBody (ts ! i))
         = sum_list (map (\<lambda>x. OutputValue (the (addTransactions m (take i ts) (hex_EncodeToString x))))
             (InputTransactionHashes (TxBody (ts ! i))))"
proof (induction ts arbitrary: m fees i)
  case Nil
  then show ?case by simp
next
  case (Cons t ts)
  from Cons.prems(1) obtain e where
    e: "sumInputs vf m (TxBodyHash t) (InputTransactionHashes (TxBody t)) (OwnerSignatures t) 0 = Inr e"
    and v: "e = InputValue (TxBody t)"
    and rec: "verifyTransactions vf (m(Transaction_String t \<mapsto> t)) (fees + Fee (TxBody t)) ts = Inr f"
    by (auto split: if_splits sum.splits)
  show ?case
  proof (cases i)
    case 0
    with sumInputs_sum [OF e] v show ?thesis
      by (simp add: addTransactions_Nil)
  next
    case (Suc j)
    with Cons.prems(2) have "j < length ts" by simp
    from Cons.IH [OF rec this] show ?thesis
      unfolding Suc take_Suc_Cons nth_Cons_Suc addTransactions_Cons .
  qed
qed



lemma verifyBlockFields_Transactions:
  "verifyBlockFields now blocks (newBlock\<lparr>Body := (Body newBlock)\<lparr>Transactions := ts\<rparr>\<rparr>)
     = verifyBlockFields now blocks newBlock"
  by (simp add: verifyBlockFields_def)

lemma verifyExceptNonce_id:
  assumes "if blocks = [] then Id (Body newBlock) \<noteq> GenesisId
           else Id (Body newBlock) \<noteq> Id (Body (last blocks)) + 1"
  shows "verifyExceptNonce vf now blocks newBlock
           = Inl (if Version (Body newBlock) \<noteq> CurrentVersion then VersionMismatch
                  else IdMismatch)"
  using assms by (auto simp: verifyExceptNonce_def verifyBlockFields_def split: if_splits)

lemma sumInputs_agree:
  assumes "\<forall>k. rel_option (\<lambda>a b. NextOwner (TxBody a) = NextOwner (TxBody b)
                                \<and> OutputValue a = OutputValue b) (m k) (m' k)"
  shows "sumInputs vf m h hs sigs acc = sumInputs vf m' h hs sigs acc"
proof (induction hs arbitrary: sigs acc)
  case Nil
  show ?case by simp
next
  case (Cons x hs)
  from assms have "rel_option (\<lambda>a b. NextOwner (TxBody a) = NextOwner (TxBody b)
                                \<and> OutputValue a = OutputValue b)
                     (m (hex_EncodeToString x)) (m' (hex_EncodeToString x))"
    by blast
  then show ?case
  proof (cases rule: option.rel_cases)
    case None
    then show ?thesis by simp
  next
    case (Some a b)
    with Cons.IH show ?thesis
      by (simp split: list.splits)
  qed
qed

lemma verifyTransactions_agree:
  assumes "\<forall>k. rel_option (\<lambda>a b. NextOwner (TxBody a) = NextOwner (TxBody b)
                                \<and> OutputValue a = OutputValue b) (m k) (m' k)"
  shows "verifyTransactions vf m fees ts = verifyTransactions vf m' fees ts"
  using assms
proof (induction ts arbitrary: m m' fees)
  case Nil
  show ?case by simp
next
  case (Cons t ts)
  have "\<forall>k. rel_option (\<lambda>a b. NextOwner (TxBody a) = NextOwner (TxBody b)
                                \<and> OutputValue a = OutputValue b)
              ((m(Transaction_String t \<mapsto> t)) k) ((m'(Transaction_String t \<mapsto> t)) k)"
    using Cons.prems by simp
  from Cons.IH [OF this]
  have ih: "verifyTransactions vf (m(Transaction_String t \<mapsto> t)) f ts
              = verifyTransactions vf (m'(Transaction_String t \<mapsto> t)) f ts" for f .
  have si: "sumInputs vf m h hs sigs acc = sumInputs vf m' h hs sigs acc" for h hs sigs acc
    by (rule sumInputs_agree [OF Cons.prems])
  show ?case by (simp only: verifyTransactions.simps ih si)
qed

lemma sumInputs_agree_on:
  "\<forall>x \<in> set hs. rel_option (\<lambda>a b. NextOwner (TxBody a) = NextOwner (TxBody b)
                                  \<and> OutputValue a = OutputValue b)
                    (m (hex_EncodeToString x)) (m' (hex_EncodeToString x)) \<Longrightarrow>
   sumInputs vf m h hs sigs acc = sumInputs vf m' h hs sigs acc"
proof (induction hs arbitrary: sigs acc)
  case Nil
  show ?case by simp
next
  case (Cons x hs)
  from Cons.prems have "rel_option (\<lambda>a b. NextOwner (TxBody a) = NextOwner (TxBody b)
                                \<and> OutputValue a = OutputValue b)
                     (m (hex_EncodeToString x)) (m' (hex_EncodeToString x))"
    by simp
  then show ?case
  proof (cases rule: option.rel_cases)
    case None
    then show ?thesis by simp
  next
    case (Some a b)
    from Cons.prems have "\<forall>x \<in> set hs. rel_option (\<lambda>a b. NextOwner (TxBody a) = NextOwner (TxBody b)
                                  \<and> OutputValue a = OutputValue b)
                    (m (hex_EncodeToString x)) (m' (hex_EncodeToString x))"
      by simp
    from Cons.IH [OF this] Some show ?thesis
      by (simp split: list.splits)
  qed
qed

lemma verifyTransactions_agree_on:
  "\<forall>t \<in> set ts. \<forall>x \<in> set (InputTransactionHashes (TxBody t)).
      rel_option (\<lambda>a b. NextOwner (TxBody a) = NextOwner (TxBody b)
                        \<and> OutputValue a = OutputValue b)
        (m (hex_EncodeToString x)) (m' (hex_EncodeToString x)) \<Longrightarrow>
   verifyTransactions vf m fees ts = verifyTransactions vf m' fees ts"
proof (induction ts arbitrary: m m' fees)
  case Nil
  show ?case by simp
next
  case (Cons t ts)
  have "\<forall>u \<in> set ts. \<forall>x \<in> set (InputTransactionHashes (TxBody u)).
      rel_option (\<lambda>a b. NextOwner (TxBody a) = NextOwner (TxBody b)
                        \<and> OutputValue a = OutputValue b)
        ((m(Transaction_String t \<mapsto> t)) (hex_EncodeToString x))
        ((m'(Transaction_String t \<mapsto> t)) (hex_EncodeToString x))"
    using Cons.prems by simp
  from Cons.IH [OF this]
  have ih: "verifyTransactions vf (m(Transaction_String t \<mapsto> t)) f ts
              = verifyTransactions vf (m'(Transaction_String t \<mapsto> t)) f ts" for f .
  have si: "sumInputs vf m h (InputTransactionHashes (TxBody t)) sigs acc
              = sumInputs vf m' h (InputTransactionHashes (TxBody t)) sigs acc" for h sigs acc
    by (rule sumInputs_agree_on) (use Cons.prems in simp)
  show ?case by (simp only: verifyTransactions.simps ih si)
qed

lemma verifyExceptNonce_first:
  assumes "Transactions (Body newBlock) = first # rest"
    and "InputValue (TxBody first') = InputValue (TxBody first)"
    and "verifyTransactions vf
           ((chainTransactions blocks)(Transaction_String first' \<mapsto> first')) 0 rest
         = verifyTransactions vf
           ((chainTransactions blocks)(Transaction_String first \<mapsto> first)) 0 rest"
  shows "verifyExceptNonce vf now blocks
           (newBlock\<lparr>Body := (Body newBlock)\<lparr>Transactions := first' # rest\<rparr>\<rparr>)
         = verifyExceptNonce vf now blocks newBlock"
  using assms
  by (cases "verifyBlockFields now blocks newBlock")
     (simp_all add: verifyExceptNonce_def verifyBlockFields_Transactions split: sum.splits)

lemma verifyTransactions_append:
  "verifyTransactions vf m fees (xs @ ys) =
     (case verifyTransactions vf m fees xs of
        Inl err \<Rightarrow> Inl err
      | Inr f \<Rightarrow> verifyTransactions vf (addTransactions m xs) f ys)"
proof (induction xs arbitrary: m fees)
  case Nil
  show ?case by (simp add: addTransactions_Nil)
next
  case (Cons x xs)
  show ?case
    by (simp add: Cons.IH addTransactions_Cons del: fun_upd_apply split: sum.splits)
qed

subsection \<open>The value of the coinbase\<close>




subsection \<open>The id of the candidate\<close>

text \<open>
  Claim C6, as amended.  On an empty chain a candidate whose id is not 0 is rejected; on
  a chain that is not empty a candidate whose id is not the \<^verbatim>\<open>uint32\<close> sum \<open>tip.id + 1\<close> is
  rejected, and so is a candidate of id 0 when the id of the tip is not \<open>2 ^ 32 - 1\<close>.
  The error is the id error unless the version is wrong, which is checked first; no
  error of a transaction check can come out, whatever the transactions are.
\<close>

theorem genesis_rule:
  "(blocks = [] \<and> Id (Body newBlock) \<noteq> 0 \<longrightarrow>
      verifyExceptNonce vf now blocks newBlock
        = Inl (if Version (Body newBlock) \<noteq> CurrentVersion then VersionMismatch
               else IdMismatch))
   \<and> (blocks \<noteq> [] \<and> Id (Body newBlock) \<noteq> Id (Body (last blocks)) + 1 \<longrightarrow>
      verifyExceptNonce vf now blocks newBlock
        = Inl (if Version (Body newBlock) \<noteq> CurrentVersion then VersionMismatch
               else IdMismatch))
   \<and> (blocks \<noteq> [] \<and> Id (Body newBlock) = 0 \<and> Id (Body (last blocks)) \<noteq> 4294967295 \<longrightarrow>
      verifyExceptNonce vf now blocks newBlock
        = Inl (if Version (Body newBlock) \<noteq> CurrentVersion then VersionMismatch
               else IdMismatch))"
proof (intro conjI impI)
  assume "blocks = [] \<and> Id (Body newBlock) \<noteq> 0"
  then show "verifyExceptNonce vf now blocks newBlock
        = Inl (if Version (Body newBlock) \<noteq> CurrentVersion then VersionMismatch
               else IdMismatch)"
    by (intro verifyExceptNonce_id) (simp add: GenesisId_def)
next
  assume "blocks \<noteq> [] \<and> Id (Body newBlock) \<noteq> Id (Body (last blocks)) + 1"
  then show "verifyExceptNonce vf now blocks newBlock
        = Inl (if Version (Body newBlock) \<noteq> CurrentVersion then VersionMismatch
               else IdMismatch)"
    by (intro verifyExceptNonce_id) simp
next
  assume a: "blocks \<noteq> [] \<and> Id (Body newBlock) = 0 \<and> Id (Body (last blocks)) \<noteq> 4294967295"
  have "Id (Body (last blocks)) + 1 \<noteq> 0"
  proof
    assume "Id (Body (last blocks)) + 1 = 0"
    then have "Id (Body (last blocks)) = - 1"
      by (simp add: eq_neg_iff_add_eq_0)
    with a show False by simp
  qed
  with a show "verifyExceptNonce vf now blocks newBlock
        = Inl (if Version (Body newBlock) \<noteq> CurrentVersion then VersionMismatch
               else IdMismatch)"
    by (intro verifyExceptNonce_id) simp
qed

theorem genesis_rule_witness:
  "verifyExceptNonce demoVerify 100 [] (exGenesis\<lparr>Body := exGenesisBody\<lparr>Id := 5\<rparr>\<rparr>)
     = Inl IdMismatch
   \<and> verifyExceptNonce demoVerify 100 [exGenesis] (exWrapped\<lparr>Body := (Body exWrapped)\<lparr>Id := 7\<rparr>\<rparr>)
     = Inl IdMismatch
   \<and> verifyExceptNonce demoVerify 100 [exGenesis] exWrapped = Inl IdMismatch"
proof -
  have 1: "verifyExceptNonce demoVerify 100 [] (exGenesis\<lparr>Body := exGenesisBody\<lparr>Id := 5\<rparr>\<rparr>)
     = Inl IdMismatch"
    using genesis_rule [of "[]" "exGenesis\<lparr>Body := exGenesisBody\<lparr>Id := 5\<rparr>\<rparr>" demoVerify 100]
    by (simp add: CurrentVersion_def exGenesisBody_def)
  have 2: "verifyExceptNonce demoVerify 100 [exGenesis]
             (exWrapped\<lparr>Body := (Body exWrapped)\<lparr>Id := 7\<rparr>\<rparr>) = Inl IdMismatch"
    using genesis_rule [of "[exGenesis]" "exWrapped\<lparr>Body := (Body exWrapped)\<lparr>Id := 7\<rparr>\<rparr>"
        demoVerify 100]
    by (simp add: CurrentVersion_def exGenesisBody_def exGenesis_def exWrapped_def)
  have 3: "verifyExceptNonce demoVerify 100 [exGenesis] exWrapped = Inl IdMismatch"
    using genesis_rule [of "[exGenesis]" exWrapped demoVerify 100]
    by (simp add: CurrentVersion_def exGenesisBody_def exGenesis_def exWrapped_def)
  from 1 2 3 show ?thesis by blast
qed

text \<open>
  The claim as stated fails where \<open>tip.id + 1\<close> wraps around: on the chain whose tip has
  id \<open>2 ^ 32 - 1\<close> the candidate of id 0 that links to the tip is accepted.
\<close>

theorem genesis_rule_counterexample:
  "[exTip] \<noteq> [] \<and> Id (Body exWrapped) = 0
   \<and> verifyExceptNonce demoVerify 100 [exTip] exWrapped = Inr ()"
  by (simp add: verify_defs demo_defs ex_defs ex_more_defs)

subsection \<open>Change and fee\<close>

text \<open>
  Claim C7 fails on the code.  The candidate \<open>exOverflow\<close> is accepted, and its second
  transaction, not a coinbase, has input value 9, change 10 and fee \<open>2 ^ 32 - 1\<close>: the
  sum of change and fee is 4294967305 as a number and 9 as a \<^verbatim>\<open>uint32\<close>, and the code
  compares the input value with the latter.
\<close>

theorem insufficient_input_accepted:
  "verifyExceptNonce demoVerify 100 [] exOverflow = Inr ()
   \<and> Transactions (Body exOverflow) = [exCoinbase9, exOverflowSpend]
   \<and> \<not> isCoinbase exOverflowSpend
   \<and> uint (InputValue (TxBody exOverflowSpend)) = 9
   \<and> uint (Change (TxBody exOverflowSpend)) + uint (Fee (TxBody exOverflowSpend)) = 4294967305
   \<and> Change (TxBody exOverflowSpend) + Fee (TxBody exOverflowSpend) = 9"
  by (simp add: verify_defs demo_defs ex_defs ex_more_defs)

subsection \<open>The first transaction\<close>

text \<open>
  Claim C10, as amended.  The verdict of \<^verbatim>\<open>verifyExceptNonce\<close> does not depend on the
  input hashes and the signatures of the first transaction: replacing them by any others
  leaves the result the same.  Nothing checks that the first transaction is flagged as
  coinbase: whatever its input hashes, signatures and flag are, the candidate is accepted
  when the checks on the fields of the block pass, the later transactions validate, and
  the input value of the first transaction is the fees plus \<open>MiningReward\<close>.  The flag is
  read only by \<^verbatim>\<open>OutputValue\<close>, and only when a later transaction names the first
  transaction as an input: setting the flag to any value leaves the verdict the same when
  the output value of the first transaction stays the same, and also when no input hash
  of a later transaction is the key of the first transaction.
\<close>

theorem first_transaction_structure:
  assumes "Transactions (Body newBlock) = first # rest"
  shows "verifyExceptNonce vf now blocks
           (newBlock\<lparr>Body := (Body newBlock)\<lparr>Transactions :=
              first\<lparr>TxBody := (TxBody first)\<lparr>InputTransactionHashes := hs\<rparr>,
                    OwnerSignatures := sigs\<rparr> # rest\<rparr>\<rparr>)
           = verifyExceptNonce vf now blocks newBlock
       \<and> (verifyBlockFields now blocks newBlock = Inr ()
            \<and> verifyTransactions vf
                 ((chainTransactions blocks)(Transaction_String first \<mapsto> first)) 0 rest
                = Inr newBlockFees
            \<and> InputValue (TxBody first) = newBlockFees + MiningReward
          \<longrightarrow> verifyExceptNonce vf now blocks newBlock = Inr ())
       \<and> (OutputValue (first\<lparr>isCoinbase := flag\<rparr>) = OutputValue first
          \<longrightarrow> verifyExceptNonce vf now blocks
                (newBlock\<lparr>Body := (Body newBlock)\<lparr>Transactions :=
                   first\<lparr>isCoinbase := flag\<rparr> # rest\<rparr>\<rparr>)
              = verifyExceptNonce vf now blocks newBlock)
       \<and> ((\<forall>t \<in> set rest. \<forall>x \<in> set (InputTransactionHashes (TxBody t)).
               hex_EncodeToString x \<noteq> Transaction_String first)
          \<longrightarrow> verifyExceptNonce vf now blocks
                (newBlock\<lparr>Body := (Body newBlock)\<lparr>Transactions :=
                   first\<lparr>isCoinbase := flag\<rparr> # rest\<rparr>\<rparr>)
              = verifyExceptNonce vf now blocks newBlock)"
proof (intro conjI impI)
  let ?first' = "first\<lparr>TxBody := (TxBody first)\<lparr>InputTransactionHashes := hs\<rparr>,
                       OwnerSignatures := sigs\<rparr>"
  have "\<forall>k. rel_option (\<lambda>a b. NextOwner (TxBody a) = NextOwner (TxBody b)
                                \<and> OutputValue a = OutputValue b)
              (((chainTransactions blocks)(Transaction_String ?first' \<mapsto> ?first')) k)
              (((chainTransactions blocks)(Transaction_String first \<mapsto> first)) k)"
    by (simp add: Transaction_String_def OutputValue_def option.rel_refl)
  from verifyTransactions_agree [OF this]
  have "verifyTransactions vf
          ((chainTransactions blocks)(Transaction_String ?first' \<mapsto> ?first')) 0 rest
        = verifyTransactions vf
          ((chainTransactions blocks)(Transaction_String first \<mapsto> first)) 0 rest" .
  from verifyExceptNonce_first [OF assms _ this]
  show "verifyExceptNonce vf now blocks
           (newBlock\<lparr>Body := (Body newBlock)\<lparr>Transactions := ?first' # rest\<rparr>\<rparr>)
           = verifyExceptNonce vf now blocks newBlock"
    by simp
next
  assume "verifyBlockFields now blocks newBlock = Inr ()
            \<and> verifyTransactions vf
                 ((chainTransactions blocks)(Transaction_String first \<mapsto> first)) 0 rest
                = Inr newBlockFees
            \<and> InputValue (TxBody first) = newBlockFees + MiningReward"
  with assms show "verifyExceptNonce vf now blocks newBlock = Inr ()"
    by (simp add: verifyExceptNonce_def)
next
  let ?first' = "first\<lparr>isCoinbase := flag\<rparr>"
  assume same: "OutputValue ?first' = OutputValue first"
  then have "\<forall>k. rel_option (\<lambda>a b. NextOwner (TxBody a) = NextOwner (TxBody b)
                                \<and> OutputValue a = OutputValue b)
              (((chainTransactions blocks)(Transaction_String ?first' \<mapsto> ?first')) k)
              (((chainTransactions blocks)(Transaction_String first \<mapsto> first)) k)"
    by (simp add: Transaction_String_def option.rel_refl)
  from verifyTransactions_agree [OF this]
  have "verifyTransactions vf
          ((chainTransactions blocks)(Transaction_String ?first' \<mapsto> ?first')) 0 rest
        = verifyTransactions vf
          ((chainTransactions blocks)(Transaction_String first \<mapsto> first)) 0 rest" .
  from verifyExceptNonce_first [OF assms _ this]
  show "verifyExceptNonce vf now blocks
           (newBlock\<lparr>Body := (Body newBlock)\<lparr>Transactions := ?first' # rest\<rparr>\<rparr>)
           = verifyExceptNonce vf now blocks newBlock"
    by simp
next
  let ?first' = "first\<lparr>isCoinbase := flag\<rparr>"
  assume unref: "\<forall>t \<in> set rest. \<forall>x \<in> set (InputTransactionHashes (TxBody t)).
               hex_EncodeToString x \<noteq> Transaction_String first"
  then have "\<forall>t \<in> set rest. \<forall>x \<in> set (InputTransactionHashes (TxBody t)).
      rel_option (\<lambda>a b. NextOwner (TxBody a) = NextOwner (TxBody b)
                        \<and> OutputValue a = OutputValue b)
        (((chainTransactions blocks)(Transaction_String ?first' \<mapsto> ?first'))
           (hex_EncodeToString x))
        (((chainTransactions blocks)(Transaction_String first \<mapsto> first))
           (hex_EncodeToString x))"
    by (simp add: Transaction_String_def option.rel_refl)
  from verifyTransactions_agree_on [OF this]
  have "verifyTransactions vf
          ((chainTransactions blocks)(Transaction_String ?first' \<mapsto> ?first')) 0 rest
        = verifyTransactions vf
          ((chainTransactions blocks)(Transaction_String first \<mapsto> first)) 0 rest" .
  from verifyExceptNonce_first [OF assms _ this]
  show "verifyExceptNonce vf now blocks
           (newBlock\<lparr>Body := (Body newBlock)\<lparr>Transactions := ?first' # rest\<rparr>\<rparr>)
           = verifyExceptNonce vf now blocks newBlock"
    by simp
qed

theorem first_transaction_structure_witness:
  "Transactions (Body exUnflagged) = [exFirstWithInput]
   \<and> InputTransactionHashes (TxBody exFirstWithInput) = [[1, 2, 3, 4]]
   \<and> OwnerSignatures exFirstWithInput = [\<lparr>R = 6, S = 7780630\<rparr>]
   \<and> \<not> isCoinbase exFirstWithInput
   \<and> verifyExceptNonce demoVerify 100 [] exUnflagged = Inr ()
   \<and> verifyExceptNonce demoVerify 100 []
        (exUnflagged\<lparr>Body := (Body exUnflagged)\<lparr>Transactions :=
           [exFirstWithInput\<lparr>TxBody := (TxBody exFirstWithInput)\<lparr>InputTransactionHashes := []\<rparr>,
                             OwnerSignatures := []\<rparr>]\<rparr>\<rparr>) = Inr ()
   \<and> OutputValue (exCoinbase\<lparr>isCoinbase := False\<rparr>) = OutputValue exCoinbase
   \<and> verifyExceptNonce demoVerify 100 []
        (exGenesis\<lparr>Body := (Body exGenesis)\<lparr>Transactions :=
           exCoinbase\<lparr>isCoinbase := False\<rparr> # [exSpend]\<rparr>\<rparr>) = Inr ()
   \<and> OutputValue (exChangeCoinbase\<lparr>isCoinbase := False\<rparr>) \<noteq> OutputValue exChangeCoinbase
   \<and> verifyExceptNonce demoVerify 100 [] (exUnreferenced True) = Inr ()
   \<and> verifyExceptNonce demoVerify 100 []
        (exUnreferenced True\<lparr>Body := (Body (exUnreferenced True))\<lparr>Transactions :=
           exChangeCoinbase\<lparr>isCoinbase := False\<rparr> # [exNoInput]\<rparr>\<rparr>) = Inr ()"
proof -
  have t: "Transactions (Body exUnflagged) = exFirstWithInput # []"
    by (simp add: ex_more_defs)
  note w = first_transaction_structure [OF t, of demoVerify 100 "[]" "[]" "[]" 0]
  have h: "verifyBlockFields 100 [] exUnflagged = Inr ()"
    by (simp add: verify_defs ex_more_defs)
  have v: "verifyTransactions demoVerify
             ((chainTransactions [])(Transaction_String exFirstWithInput \<mapsto> exFirstWithInput))
             0 [] = Inr 0"
    by simp
  have c: "InputValue (TxBody exFirstWithInput) = 0 + MiningReward"
    by (simp add: MiningReward_def ex_more_defs)
  from w h v c have a: "verifyExceptNonce demoVerify 100 [] exUnflagged = Inr ()"
    by blast
  with w have b: "verifyExceptNonce demoVerify 100 []
        (exUnflagged\<lparr>Body := (Body exUnflagged)\<lparr>Transactions :=
           [exFirstWithInput\<lparr>TxBody := (TxBody exFirstWithInput)\<lparr>InputTransactionHashes := []\<rparr>,
                             OwnerSignatures := []\<rparr>]\<rparr>\<rparr>) = Inr ()"
    by simp
  have d: "InputTransactionHashes (TxBody exFirstWithInput) = [[1, 2, 3, 4]]
     \<and> OwnerSignatures exFirstWithInput = [\<lparr>R = 6, S = 7780630\<rparr>]
     \<and> \<not> isCoinbase exFirstWithInput"
    by (simp add: ex_more_defs)
  have tg: "Transactions (Body exGenesis) = exCoinbase # [exSpend]"
    by (simp add: ex_defs)
  have og: "OutputValue (exCoinbase\<lparr>isCoinbase := False\<rparr>) = OutputValue exCoinbase"
    by (simp add: OutputValue_def ex_defs)
  from first_transaction_structure [OF tg, of demoVerify 100 "[]" "[]" "[]" 0 False] og
  have "verifyExceptNonce demoVerify 100 []
        (exGenesis\<lparr>Body := (Body exGenesis)\<lparr>Transactions :=
           exCoinbase\<lparr>isCoinbase := False\<rparr> # [exSpend]\<rparr>\<rparr>)
        = verifyExceptNonce demoVerify 100 [] exGenesis"
    by blast
  then have g: "verifyExceptNonce demoVerify 100 []
        (exGenesis\<lparr>Body := (Body exGenesis)\<lparr>Transactions :=
           exCoinbase\<lparr>isCoinbase := False\<rparr> # [exSpend]\<rparr>\<rparr>) = Inr ()"
    by (simp add: exGenesis_verified)
  have tu: "Transactions (Body (exUnreferenced True)) = exChangeCoinbase # [exNoInput]"
    by (simp add: ex_more_defs exUnreferenced_def)
  have ou: "OutputValue (exChangeCoinbase\<lparr>isCoinbase := False\<rparr>) \<noteq> OutputValue exChangeCoinbase"
    by (simp add: OutputValue_def ex_more_defs)
  have ru: "\<forall>t \<in> set [exNoInput]. \<forall>x \<in> set (InputTransactionHashes (TxBody t)).
               hex_EncodeToString x \<noteq> Transaction_String exChangeCoinbase"
    by (simp add: exNoInput_def)
  have au: "verifyExceptNonce demoVerify 100 [] (exUnreferenced True) = Inr ()"
    by (simp add: verify_defs demo_defs ex_defs ex_more_defs exNoInput_def exUnreferenced_def)
  from first_transaction_structure [OF tu, of demoVerify 100 "[]" "[]" "[]" 0 False] ru
  have "verifyExceptNonce demoVerify 100 []
        (exUnreferenced True\<lparr>Body := (Body (exUnreferenced True))\<lparr>Transactions :=
           exChangeCoinbase\<lparr>isCoinbase := False\<rparr> # [exNoInput]\<rparr>\<rparr>)
        = verifyExceptNonce demoVerify 100 [] (exUnreferenced True)"
    by blast
  with au have u: "verifyExceptNonce demoVerify 100 []
        (exUnreferenced True\<lparr>Body := (Body (exUnreferenced True))\<lparr>Transactions :=
           exChangeCoinbase\<lparr>isCoinbase := False\<rparr> # [exNoInput]\<rparr>\<rparr>) = Inr ()"
    by simp
  from t a b d og g ou au u show ?thesis by simp
qed

text \<open>
  The claim as stated fails for the flag: it is read by \<^verbatim>\<open>OutputValue\<close> when a later
  transaction names the first transaction as its input.  Two candidates that differ in
  nothing but the coinbase flag of the first transaction get different verdicts.
\<close>

theorem coinbase_flag_counterexample:
  "verifyExceptNonce demoVerify 100 [] (exFlagged True) = Inr ()
   \<and> verifyExceptNonce demoVerify 100 [] (exFlagged False) = Inl ValueMismatch"
  by (simp add: verify_defs demo_defs ex_defs ex_more_defs)

subsection \<open>The value check\<close>

text \<open>
  Claim C1, as amended.  The value check is made for each transaction on its own.  If
  the candidate is accepted, every transaction after the first has all its inputs in the
  lookup and declares as input value the \<^verbatim>\<open>uint32\<close> sum of their output values.  If the
  transactions before it pass, its signatures are as many as its inputs, and its inputs
  are found and signed, then a declared input value other than that sum is rejected with
  \<open>ValueMismatch\<close>.  Nothing adds up what several transactions claim of one input.
\<close>

theorem value_check_per_transaction:
  assumes "verifyBlockFields now blocks newBlock = Inr ()"
    and "Transactions (Body newBlock) = coinBaseTransaction # rest"
    and "i < length rest"
  shows "(verifyExceptNonce vf now blocks newBlock = Inr () \<longrightarrow>
            (\<forall>x \<in> set (InputTransactionHashes (TxBody (rest ! i))).
                lookupBefore blocks coinBaseTransaction rest i (hex_EncodeToString x) \<noteq> None)
            \<and> InputValue (TxBody (rest ! i))
                = sum_list (map (\<lambda>x. OutputValue (the (lookupBefore blocks coinBaseTransaction
                                                          rest i (hex_EncodeToString x))))
                    (InputTransactionHashes (TxBody (rest ! i)))))
       \<and> (\<forall>f e. verifyTransactions vf (lookupBefore blocks coinBaseTransaction rest 0) 0
                   (take i rest) = Inr f
              \<and> length (InputTransactionHashes (TxBody (rest ! i)))
                  = length (OwnerSignatures (rest ! i))
              \<and> sumInputs vf (lookupBefore blocks coinBaseTransaction rest i)
                   (TxBodyHash (rest ! i)) (InputTransactionHashes (TxBody (rest ! i)))
                   (OwnerSignatures (rest ! i)) 0 = Inr e
            \<longrightarrow> e = sum_list (map (\<lambda>x. OutputValue (the (lookupBefore blocks coinBaseTransaction
                                                          rest i (hex_EncodeToString x))))
                       (InputTransactionHashes (TxBody (rest ! i))))
              \<and> (e \<noteq> InputValue (TxBody (rest ! i)) \<longrightarrow>
                    verifyExceptNonce vf now blocks newBlock = Inl ValueMismatch))"
proof (intro conjI allI impI)
  assume acc: "verifyExceptNonce vf now blocks newBlock = Inr ()"
  with assms(2) obtain fees where
    "verifyTransactions vf
       ((chainTransactions blocks)(Transaction_String coinBaseTransaction \<mapsto> coinBaseTransaction))
       0 rest = Inr fees"
    by (auto simp: verifyExceptNonce_def split: sum.splits if_splits)
  from verifyTransactions_values [OF this assms(3)]
  show "\<forall>x \<in> set (InputTransactionHashes (TxBody (rest ! i))).
                lookupBefore blocks coinBaseTransaction rest i (hex_EncodeToString x) \<noteq> None"
    and "InputValue (TxBody (rest ! i))
                = sum_list (map (\<lambda>x. OutputValue (the (lookupBefore blocks coinBaseTransaction
                                                          rest i (hex_EncodeToString x))))
                    (InputTransactionHashes (TxBody (rest ! i))))"
    by (simp_all add: lookupBefore_def)
next
  fix f e
  assume a: "verifyTransactions vf (lookupBefore blocks coinBaseTransaction rest 0) 0
                   (take i rest) = Inr f
              \<and> length (InputTransactionHashes (TxBody (rest ! i)))
                  = length (OwnerSignatures (rest ! i))
              \<and> sumInputs vf (lookupBefore blocks coinBaseTransaction rest i)
                   (TxBodyHash (rest ! i)) (InputTransactionHashes (TxBody (rest ! i)))
                   (OwnerSignatures (rest ! i)) 0 = Inr e"
  from a sumInputs_sum [of vf "lookupBefore blocks coinBaseTransaction rest i"
      "TxBodyHash (rest ! i)" "InputTransactionHashes (TxBody (rest ! i))"
      "OwnerSignatures (rest ! i)" 0 e]
  show "e = sum_list (map (\<lambda>x. OutputValue (the (lookupBefore blocks coinBaseTransaction
                                                          rest i (hex_EncodeToString x))))
                       (InputTransactionHashes (TxBody (rest ! i))))"
    by simp
  assume ne: "e \<noteq> InputValue (TxBody (rest ! i))"
  let ?base = "(chainTransactions blocks)(Transaction_String coinBaseTransaction \<mapsto> coinBaseTransaction)"
  have split: "rest = take i rest @ rest ! i # drop (Suc i) rest"
    using assms(3) by (simp add: id_take_nth_drop)
  have pre: "verifyTransactions vf ?base 0 (take i rest) = Inr f"
    using a by (simp add: lookupBefore_def addTransactions_Nil)
  have "verifyTransactions vf ?base 0 (take i rest @ rest ! i # drop (Suc i) rest)
          = Inl ValueMismatch"
    unfolding verifyTransactions_append pre
    using a ne by (simp add: lookupBefore_def)
  with split have "verifyTransactions vf ?base 0 rest = Inl ValueMismatch"
    by simp
  with assms(1,2) show "verifyExceptNonce vf now blocks newBlock = Inl ValueMismatch"
    by (simp add: verifyExceptNonce_def)
qed

theorem value_check_per_transaction_witness:
  "verifyExceptNonce demoVerify 100 [] exDoubleSpend = Inr ()
   \<and> InputValue (TxBody exSpendAgain)
       = OutputValue (the (lookupBefore [] exCoinbase [exSpend, exSpendAgain] 1
                             (hex_EncodeToString (TxBodyHash exCoinbase))))
   \<and> sumInputs demoVerify (lookupBefore [] (exChangeCoinbase\<lparr>isCoinbase := False\<rparr>)
                              [exChangeSpend] 0)
         (TxBodyHash exChangeSpend) (InputTransactionHashes (TxBody exChangeSpend))
         (OwnerSignatures exChangeSpend) 0 = Inr 5
   \<and> InputValue (TxBody exChangeSpend) = 10
   \<and> verifyExceptNonce demoVerify 100 [] (exFlagged False) = Inl ValueMismatch"
proof -
  have h1: "verifyBlockFields 100 [] exDoubleSpend = Inr ()"
    by (simp add: verify_defs ex_more_defs)
  have t1: "Transactions (Body exDoubleSpend) = exCoinbase # [exSpend, exSpendAgain]"
    by (simp add: ex_more_defs)
  have i1: "1 < length [exSpend, exSpendAgain]"
    by simp
  have a1: "verifyExceptNonce demoVerify 100 [] exDoubleSpend = Inr ()"
    by (simp add: verify_defs demo_defs ex_defs ex_more_defs)
  from value_check_per_transaction [OF h1 t1 i1, of demoVerify] a1
  have "InputValue (TxBody ([exSpend, exSpendAgain] ! 1))
       = sum_list (map (\<lambda>x. OutputValue (the (lookupBefore [] exCoinbase
                                                  [exSpend, exSpendAgain] 1
                                                  (hex_EncodeToString x))))
           (InputTransactionHashes (TxBody ([exSpend, exSpendAgain] ! 1))))"
    by blast
  then have v1: "InputValue (TxBody exSpendAgain)
       = OutputValue (the (lookupBefore [] exCoinbase [exSpend, exSpendAgain] 1
                             (hex_EncodeToString (TxBodyHash exCoinbase))))"
    by (simp add: exSpendAgain_def exCoinbase_def)
  have h2: "verifyBlockFields 100 [] (exFlagged False) = Inr ()"
    by (simp add: verify_defs ex_more_defs)
  have t2: "Transactions (Body (exFlagged False))
              = exChangeCoinbase\<lparr>isCoinbase := False\<rparr> # [exChangeSpend]"
    by (simp add: ex_more_defs)
  have i2: "0 < length [exChangeSpend]"
    by simp
  have p2: "verifyTransactions demoVerify
              (lookupBefore [] (exChangeCoinbase\<lparr>isCoinbase := False\<rparr>) [exChangeSpend] 0) 0
              (take 0 [exChangeSpend]) = Inr 0"
    by simp
  have l2: "length (InputTransactionHashes (TxBody ([exChangeSpend] ! 0)))
              = length (OwnerSignatures ([exChangeSpend] ! 0))"
    by (simp add: ex_more_defs)
  have s2: "sumInputs demoVerify (lookupBefore [] (exChangeCoinbase\<lparr>isCoinbase := False\<rparr>)
                              [exChangeSpend] 0)
         (TxBodyHash exChangeSpend) (InputTransactionHashes (TxBody exChangeSpend))
         (OwnerSignatures exChangeSpend) 0 = Inr 5"
    by (simp add: lookupBefore_def verify_defs demo_defs ex_defs ex_more_defs)
  have n2: "InputValue (TxBody exChangeSpend) = 10"
    by (simp add: ex_more_defs)
  from value_check_per_transaction [OF h2 t2 i2, of demoVerify] p2 l2 s2 n2
  have a2: "verifyExceptNonce demoVerify 100 [] (exFlagged False) = Inl ValueMismatch"
    by simp
  from a1 v1 s2 n2 a2 show ?thesis by blast
qed

text \<open>
  The claim as stated fails: in the candidate \<open>exDoubleSpend\<close> two distinct transactions,
  neither a coinbase, name the same input, whose output value is 10; together they claim
  20, and the candidate is accepted.
\<close>

theorem double_spend_counterexample:
  "verifyExceptNonce demoVerify 100 [] exDoubleSpend = Inr ()
   \<and> Transactions (Body exDoubleSpend) = [exCoinbase, exSpend, exSpendAgain]
   \<and> exSpend \<noteq> exSpendAgain
   \<and> \<not> isCoinbase exSpend \<and> \<not> isCoinbase exSpendAgain
   \<and> InputTransactionHashes (TxBody exSpend) = [TxBodyHash exCoinbase]
   \<and> InputTransactionHashes (TxBody exSpendAgain) = [TxBodyHash exCoinbase]
   \<and> unat (OutputValue exCoinbase) = 10
   \<and> unat (InputValue (TxBody exSpend)) + unat (InputValue (TxBody exSpendAgain)) = 20"
  by (simp add: verify_defs demo_defs ex_defs ex_more_defs)

section \<open>Validation leaves its inputs unchanged\<close>

subsection \<open>The store after a run\<close>

lemma snd_ret: "snd (ret x s) = s"
  by (simp add: ret_def)

lemma snd_raise: "snd (raise err s) = s"
  by (simp add: raise_def)

lemma snd_load: "snd (load cells p s) = s"
  by (simp add: load_def split: option.splits)

lemma snd_andThen:
  assumes "\<And>s. snd (m s) = s" and "\<And>x s. snd (f x s) = s"
  shows "snd (andThen m f s) = s"
proof (cases "m s")
  case (Pair r s')
  with assms(1) [of s] have "s' = s" by simp
  with Pair assms(2) show ?thesis
    by (cases r) (simp_all add: andThen_def)
qed

lemma andThen_reads:
  assumes "\<And>s. snd (m s) = s"
  shows "andThen m f s = (case fst (m s) of Inl err \<Rightarrow> (Inl err, s) | Inr x \<Rightarrow> f x s)"
proof (cases "m s")
  case (Pair r s')
  with assms [of s] have "s' = s" by simp
  with Pair show ?thesis
    by (cases r) (simp_all add: andThen_def)
qed

lemma snd_OutputValue_at: "snd (OutputValue_at t s) = s"
  unfolding OutputValue_at_def
  by (intro snd_andThen snd_load) (simp add: snd_ret)

lemma snd_Transaction_String_at: "snd (Transaction_String_at t s) = s"
  unfolding Transaction_String_at_def
  by (intro snd_andThen snd_load snd_ret)

lemma snd_addTransactions_at: "snd (addTransactions_at m ts s) = s"
proof (induction ts arbitrary: m s)
  case Nil
  show ?case by (simp add: snd_ret)
next
  case (Cons t ts)
  show ?case
    unfolding addTransactions_at.simps
    by (intro snd_andThen snd_Transaction_String_at Cons.IH)
qed

lemma snd_chainTransactions_at: "snd (chainTransactions_at m blocks s) = s"
proof (induction blocks arbitrary: m s)
  case Nil
  show ?case by (simp add: snd_ret)
next
  case (Cons b blocks)
  show ?case
    unfolding chainTransactions_at.simps
    by (intro snd_andThen snd_load snd_addTransactions_at Cons.IH)
qed

lemma snd_sumInputs_at: "snd (sumInputs_at vf m h hs sigs acc s) = s"
proof (induction hs arbitrary: sigs acc s)
  case Nil
  show ?case by (simp add: snd_ret)
next
  case (Cons x hs)
  have step: "snd (andThen (load transactionCells p) (\<lambda>itx.
               andThen (load transactionBodyCells (txBody itx)) (\<lambda>ibody.
                 if \<not> vf (NextOwner ibody) h (R sg) (S sg)
                 then raise InvalidSignature
                 else
                   andThen (OutputValue_at p) (\<lambda>v.
                     sumInputs_at vf m h hs sigs' (acc + v)))) s) = s" for p sg sigs'
    by (intro snd_andThen snd_load)
       (simp add: snd_raise snd_andThen [OF snd_OutputValue_at Cons.IH])
  show ?case
    by (simp add: snd_raise step split: option.splits list.splits)
qed

lemma snd_verifyTransactions_at: "snd (verifyTransactions_at vf m fees ts s) = s"
proof (induction ts arbitrary: m fees s)
  case Nil
  show ?case by (simp add: snd_ret)
next
  case (Cons t ts)
  have inner: "snd (andThen (sumInputs_at vf m h hs sigs 0)
           (\<lambda>expectedInputValue.
              if expectedInputValue \<noteq> InputValue body then raise ValueMismatch
              else if InputValue body < Change body + Fee body
              then raise InsufficientInputValue
              else verifyTransactions_at vf (m(k \<mapsto> t)) (fees + Fee body) ts) s) = s"
    for h hs sigs body k s
    by (intro snd_andThen snd_sumInputs_at) (simp add: snd_raise Cons.IH)
  show ?case
    unfolding verifyTransactions_at.simps
    by (intro snd_andThen snd_load) (simp add: snd_raise inner)
qed

lemma snd_verifyBlockFields_at: "snd (verifyBlockFields_at now blocks newBlock s) = s"
proof -
  have head: "snd (andThen (load blockCells (last blocks)) (\<lambda>headBlock.
         andThen (load bodyCells (blockBody headBlock)) (\<lambda>headBody.
           if bodyId body \<noteq> bodyId headBody + 1 then raise IdMismatch
           else if bodyPrevHash body \<noteq> blockBodyHash headBlock then raise PrevHashMismatch
           else if \<not> bodyTime body > bodyTime headBody then raise NonMonotonicTimestamp
           else if bodyTime body > now then raise FutureTimestamp
           else ret ())) s) = s" for body s
    by (intro snd_andThen snd_load) (simp add: snd_raise snd_ret)
  show ?thesis
    unfolding verifyBlockFields_at_def
    by (intro snd_andThen snd_load) (simp add: snd_raise snd_ret head)
qed

lemma snd_verifyExceptNonce_at: "snd (verifyExceptNonce_at vf now blocks newBlock s) = s"
proof -
  have coinbase: "snd (andThen (load transactionCells c) (\<lambda>cb.
           andThen (load transactionBodyCells (txBody cb)) (\<lambda>cbBody.
             if InputValue cbBody \<noteq> fees + MiningReward
             then raise CoinbaseValueMismatch
             else ret ())) s) = s" for c fees s
    by (intro snd_andThen snd_load) (simp add: snd_raise snd_ret)
  have txs: "snd (andThen (chainTransactions_at Map.empty blocks) (\<lambda>chainLookup.
           andThen (Transaction_String_at c) (\<lambda>key.
           andThen (verifyTransactions_at vf (chainLookup(key \<mapsto> c)) 0 rest)
             (\<lambda>newBlockFees.
           andThen (load transactionCells c) (\<lambda>cb.
           andThen (load transactionBodyCells (txBody cb)) (\<lambda>cbBody.
             if InputValue cbBody \<noteq> newBlockFees + MiningReward
             then raise CoinbaseValueMismatch
             else ret ()))))) s) = s" for c rest s
    by (intro snd_andThen snd_chainTransactions_at snd_Transaction_String_at
        snd_verifyTransactions_at coinbase)
  show ?thesis
    unfolding verifyExceptNonce_at_def
    by (intro snd_andThen snd_verifyBlockFields_at snd_load)
       (simp add: snd_raise txs split: list.splits)
qed

subsection \<open>The result of a run\<close>

lemma lookupHolds_empty: "lookupHolds s Map.empty Map.empty"
  by (simp add: lookupHolds_def)

lemma lookupHolds_upd:
  "lookupHolds s m mv \<Longrightarrow> transactionAt s p = Some tv \<Longrightarrow>
     lookupHolds s (m(k \<mapsto> p)) (mv(k \<mapsto> tv))"
  by (simp add: lookupHolds_def)

lemma lookupHolds_cases:
  assumes "lookupHolds s m mv"
  obtains "m k = None" "mv k = None"
  | p tv where "m k = Some p" "mv k = Some tv" "transactionAt s p = Some tv"
  using assms unfolding lookupHolds_def
  by (meson option.rel_cases)

lemma transactionAt_cells:
  assumes "transactionAt s t = Some tv"
  obtains tx where "transactionCells s t = Some tx"
    "transactionBodyCells s (txBody tx) = Some (TxBody tv)"
    "TxBodyHash tv = txBodyHash tx" "OwnerSignatures tv = txOwnerSignatures tx"
    "isCoinbase tv = txIsCoinbase tx"
  using assms
  by (auto simp: transactionAt_def split: option.splits)

lemma andThen_load:
  "cells s p = Some c \<Longrightarrow> andThen (load cells p) f s = f c s"
  by (simp add: andThen_def load_def)

lemma fst_OutputValue_at:
  assumes "transactionAt s t = Some tv"
  shows "fst (OutputValue_at t s) = Inr (OutputValue tv)"
proof -
  from assms obtain tx where "transactionCells s t = Some tx"
    "transactionBodyCells s (txBody tx) = Some (TxBody tv)" "isCoinbase tv = txIsCoinbase tx"
    by (rule transactionAt_cells)
  then show ?thesis
    by (simp add: OutputValue_at_def andThen_def load_def ret_def OutputValue_def)
qed

lemma fst_Transaction_String_at:
  assumes "transactionAt s t = Some tv"
  shows "fst (Transaction_String_at t s) = Inr (Transaction_String tv)"
proof -
  from assms obtain tx where "transactionCells s t = Some tx" "TxBodyHash tv = txBodyHash tx"
    by (rule transactionAt_cells)
  then show ?thesis
    by (simp add: Transaction_String_at_def andThen_def load_def ret_def Transaction_String_def)
qed

lemma fst_addTransactions_at:
  assumes "lookupHolds s m mv" and "those (map (transactionAt s) ts) = Some tvs"
  shows "\<exists>m'. fst (addTransactions_at m ts s) = Inr m'
           \<and> lookupHolds s m' (addTransactions mv tvs)"
  using assms
proof (induction ts arbitrary: m mv tvs)
  case Nil
  then show ?case by (simp add: ret_def addTransactions_def)
next
  case (Cons t ts)
  from Cons.prems(2) obtain tv tvs' where tv: "transactionAt s t = Some tv"
    and rest: "those (map (transactionAt s) ts) = Some tvs'" and tvs: "tvs = tv # tvs'"
    by (auto split: option.splits)
  from lookupHolds_upd [OF Cons.prems(1) tv]
  have "lookupHolds s (m(Transaction_String tv \<mapsto> t)) (mv(Transaction_String tv \<mapsto> tv))" .
  from Cons.IH [OF this rest] obtain m' where
    m': "fst (addTransactions_at (m(Transaction_String tv \<mapsto> t)) ts s) = Inr m'"
    "lookupHolds s m' (addTransactions (mv(Transaction_String tv \<mapsto> tv)) tvs')"
    by blast
  have "addTransactions_at m (t # ts) s = addTransactions_at (m(Transaction_String tv \<mapsto> t)) ts s"
    by (simp add: andThen_reads [OF snd_Transaction_String_at] fst_Transaction_String_at [OF tv])
  with m' tvs show ?case
    by (simp add: addTransactions_def)
qed

lemma blockAt_cells:
  assumes "blockAt s b = Some bv"
  obtains c body where "blockCells s b = Some c" "bodyCells s (blockBody c) = Some body"
    "those (map (transactionAt s) (bodyTransactions body)) = Some (Transactions (Body bv))"
    "Version (Body bv) = bodyVersion body" "Id (Body bv) = bodyId body"
    "PrevHash (Body bv) = bodyPrevHash body" "Time (Body bv) = bodyTime body"
    "BodyHash bv = blockBodyHash c"
  using assms
  by (auto simp: blockAt_def split: option.splits)

lemma fst_chainTransactions_at:
  assumes "lookupHolds s m mv" and "those (map (blockAt s) blocks) = Some bvs"
  shows "\<exists>m'. fst (chainTransactions_at m blocks s) = Inr m'
           \<and> lookupHolds s m'
                (foldl (\<lambda>m block. addTransactions m (Transactions (Body block))) mv bvs)"
  using assms
proof (induction blocks arbitrary: m mv bvs)
  case Nil
  then show ?case by (simp add: ret_def)
next
  case (Cons b blocks)
  from Cons.prems(2) obtain bv bvs' where bv: "blockAt s b = Some bv"
    and rest: "those (map (blockAt s) blocks) = Some bvs'" and bvs: "bvs = bv # bvs'"
    by (auto split: option.splits)
  from bv obtain c body where c: "blockCells s b = Some c"
    and body: "bodyCells s (blockBody c) = Some body"
    and txs: "those (map (transactionAt s) (bodyTransactions body)) = Some (Transactions (Body bv))"
    by (rule blockAt_cells)
  from fst_addTransactions_at [OF Cons.prems(1) txs] obtain m1 where
    m1: "fst (addTransactions_at m (bodyTransactions body) s) = Inr m1"
    "lookupHolds s m1 (addTransactions mv (Transactions (Body bv)))"
    by blast
  from Cons.IH [OF m1(2) rest] obtain m' where
    m': "fst (chainTransactions_at m1 blocks s) = Inr m'"
    "lookupHolds s m'
       (foldl (\<lambda>m block. addTransactions m (Transactions (Body block)))
          (addTransactions mv (Transactions (Body bv))) bvs')"
    by blast
  have "chainTransactions_at m (b # blocks) s = chainTransactions_at m1 blocks s"
    by (simp add: andThen_reads [OF snd_load] andThen_reads [OF snd_addTransactions_at]
        load_def c body m1(1))
  with m' bvs show ?case by simp
qed

lemma fst_sumInputs_at:
  assumes "lookupHolds s m mv"
  shows "fst (sumInputs_at vf m h hs sigs acc s) = sumInputs vf mv h hs sigs acc"
proof (induction hs arbitrary: sigs acc)
  case Nil
  show ?case by (simp add: ret_def)
next
  case (Cons x hs)
  from assms show ?case
  proof (cases rule: lookupHolds_cases [where k = "hex_EncodeToString x"])
    case 1
    then show ?thesis by (simp add: raise_def)
  next
    case (2 p tv)
    from 2(3) obtain tx where tx: "transactionCells s p = Some tx"
      "transactionBodyCells s (txBody tx) = Some (TxBody tv)"
      by (rule transactionAt_cells)
    show ?thesis
    proof (cases sigs)
      case Nil
      with 2 show ?thesis by (simp add: raise_def)
    next
      case (Cons sg sigs')
      with 2 tx Cons.IH show ?thesis
        by (simp add: andThen_reads [OF snd_load] andThen_reads [OF snd_OutputValue_at]
            load_def raise_def fst_OutputValue_at [OF 2(3)])
    qed
  qed
qed

lemma fst_verifyTransactions_at:
  assumes "lookupHolds s m mv" and "those (map (transactionAt s) ts) = Some tvs"
  shows "fst (verifyTransactions_at vf m fees ts s) = verifyTransactions vf mv fees tvs"
  using assms
proof (induction ts arbitrary: m mv fees tvs)
  case Nil
  then show ?case by (simp add: ret_def)
next
  case (Cons t ts)
  from Cons.prems(2) obtain tv tvs' where tv: "transactionAt s t = Some tv"
    and rest: "those (map (transactionAt s) ts) = Some tvs'" and tvs: "tvs = tv # tvs'"
    by (auto split: option.splits)
  from tv obtain tx where tx: "transactionCells s t = Some tx"
    "transactionBodyCells s (txBody tx) = Some (TxBody tv)"
    "TxBodyHash tv = txBodyHash tx" "OwnerSignatures tv = txOwnerSignatures tx"
    by (rule transactionAt_cells)
  from lookupHolds_upd [OF Cons.prems(1) tv]
  have "lookupHolds s (m(Transaction_String tv \<mapsto> t)) (mv(Transaction_String tv \<mapsto> tv))" .
  from Cons.IH [OF this rest]
  have ih: "fst (verifyTransactions_at vf (m(Transaction_String tv \<mapsto> t)) f ts s)
              = verifyTransactions vf (mv(Transaction_String tv \<mapsto> tv)) f tvs'" for f .
  have si: "fst (sumInputs_at vf m h hs sigs acc s) = sumInputs vf mv h hs sigs acc"
    for h hs sigs acc
    by (rule fst_sumInputs_at [OF Cons.prems(1)])
  have step: "verifyTransactions_at vf m fees (t # ts) s =
     (if length (InputTransactionHashes (TxBody tv)) \<noteq> length (OwnerSignatures tv)
      then (Inl SignatureCountMismatch, s)
      else
        case sumInputs vf mv (TxBodyHash tv) (InputTransactionHashes (TxBody tv))
               (OwnerSignatures tv) 0 of
          Inl err \<Rightarrow> (Inl err, s)
        | Inr expectedInputValue \<Rightarrow>
            if expectedInputValue \<noteq> InputValue (TxBody tv) then (Inl ValueMismatch, s)
            else if InputValue (TxBody tv) < Change (TxBody tv) + Fee (TxBody tv)
            then (Inl InsufficientInputValue, s)
            else verifyTransactions_at vf (m(Transaction_String tv \<mapsto> t))
                   (fees + Fee (TxBody tv)) ts s)"
    by (simp add: andThen_load [of transactionCells, OF tx(1)]
        andThen_load [of transactionBodyCells, OF tx(2)]
        andThen_reads [OF snd_sumInputs_at] si tx(3,4) raise_def Transaction_String_def
        split: sum.splits)
  show ?case
    unfolding tvs step
    by (simp add: ih split: sum.splits)
qed

lemma those_last:
  "those (map f xs) = Some ys \<Longrightarrow> xs \<noteq> [] \<Longrightarrow>
     ys \<noteq> [] \<and> f (last xs) = Some (last ys)"
proof (induction xs arbitrary: ys)
  case Nil
  then show ?case by simp
next
  case (Cons x xs)
  from Cons.prems(1) obtain y ys' where y: "f x = Some y"
    and rest: "those (map f xs) = Some ys'" and ys: "ys = y # ys'"
    by (auto split: option.splits)
  show ?case
  proof (cases "xs = []")
    case True
    with y rest ys show ?thesis by simp
  next
    case False
    from Cons.IH [OF rest False] False y ys show ?thesis by simp
  qed
qed

lemma fst_verifyBlockFields_at:
  assumes "blockAt s newBlock = Some nbv" and "those (map (blockAt s) blocks) = Some bvs"
  shows "fst (verifyBlockFields_at now blocks newBlock s) = verifyBlockFields now bvs nbv"
proof -
  from assms(1) obtain c body where nb: "blockCells s newBlock = Some c"
    "bodyCells s (blockBody c) = Some body"
    "Version (Body nbv) = bodyVersion body" "Id (Body nbv) = bodyId body"
    "PrevHash (Body nbv) = bodyPrevHash body" "Time (Body nbv) = bodyTime body"
    by (rule blockAt_cells)
  show ?thesis
  proof (cases "blocks = []")
    case True
    with assms(2) have "bvs = []" by simp
    with True nb show ?thesis
      by (simp add: verifyBlockFields_at_def verifyBlockFields_def andThen_load [of blockCells, OF nb(1)]
          andThen_load [of bodyCells, OF nb(2)] raise_def ret_def)
  next
    case False
    from those_last [OF assms(2) False]
    have ne: "bvs \<noteq> []" and lastv: "blockAt s (last blocks) = Some (last bvs)"
      by simp_all
    from lastv obtain hc hbody where hd: "blockCells s (last blocks) = Some hc"
      "bodyCells s (blockBody hc) = Some hbody"
      "Id (Body (last bvs)) = bodyId hbody" "Time (Body (last bvs)) = bodyTime hbody"
      "BodyHash (last bvs) = blockBodyHash hc"
      by (rule blockAt_cells)
    from False ne nb hd show ?thesis
      by (simp add: verifyBlockFields_at_def verifyBlockFields_def andThen_load [of blockCells, OF nb(1)]
          andThen_load [of bodyCells, OF nb(2)] andThen_load [of blockCells, OF hd(1)] andThen_load [of bodyCells, OF hd(2)]
          raise_def ret_def)
  qed
qed

lemma fst_verifyExceptNonce_at:
  assumes nbv: "blockAt s newBlock = Some nbv"
    and bvs: "those (map (blockAt s) blocks) = Some bvs"
  shows "fst (verifyExceptNonce_at vf now blocks newBlock s) = verifyExceptNonce vf now bvs nbv"
proof -
  from nbv obtain c body where nb: "blockCells s newBlock = Some c"
    "bodyCells s (blockBody c) = Some body"
    and txs: "those (map (transactionAt s) (bodyTransactions body)) = Some (Transactions (Body nbv))"
    by (rule blockAt_cells)
  note hdr = fst_verifyBlockFields_at [OF nbv bvs, of now]
  show ?thesis
  proof (cases "verifyBlockFields now bvs nbv")
    case (Inl err)
    with hdr show ?thesis
      by (simp add: verifyExceptNonce_at_def verifyExceptNonce_def
          andThen_reads [OF snd_verifyBlockFields_at])
  next
    case (Inr u)
    have start: "verifyExceptNonce_at vf now blocks newBlock s =
       (case bodyTransactions body of
         [] \<Rightarrow> raise EmptyBlock
       | coinBaseTransaction # rest \<Rightarrow>
           andThen (chainTransactions_at Map.empty blocks) (\<lambda>chainLookup.
           andThen (Transaction_String_at coinBaseTransaction) (\<lambda>key.
           andThen (verifyTransactions_at vf (chainLookup(key \<mapsto> coinBaseTransaction)) 0 rest)
             (\<lambda>newBlockFees.
           andThen (load transactionCells coinBaseTransaction) (\<lambda>cb.
           andThen (load transactionBodyCells (txBody cb)) (\<lambda>cbBody.
             if InputValue cbBody \<noteq> newBlockFees + MiningReward
             then raise CoinbaseValueMismatch
             else ret ())))))) s"
      using hdr Inr
      by (simp add: verifyExceptNonce_at_def andThen_reads [OF snd_verifyBlockFields_at]
          andThen_load [of blockCells, OF nb(1)] andThen_load [of bodyCells, OF nb(2)])
    show ?thesis
    proof (cases "bodyTransactions body")
      case Nil
      with txs have "Transactions (Body nbv) = []" by simp
      with Nil Inr start show ?thesis
        by (simp add: verifyExceptNonce_def raise_def)
    next
      case (Cons cbp restp)
      with txs obtain cbv restv where cbv: "transactionAt s cbp = Some cbv"
        and restv: "those (map (transactionAt s) restp) = Some restv"
        and tv: "Transactions (Body nbv) = cbv # restv"
        by (auto split: option.splits)
      from fst_chainTransactions_at [OF lookupHolds_empty bvs] obtain m0 where
        m0: "fst (chainTransactions_at Map.empty blocks s) = Inr m0"
        "lookupHolds s m0 (chainTransactions bvs)"
        by (auto simp: chainTransactions_def)
      from lookupHolds_upd [OF m0(2) cbv]
      have rel: "lookupHolds s (m0(Transaction_String cbv \<mapsto> cbp))
                   ((chainTransactions bvs)(Transaction_String cbv \<mapsto> cbv))" .
      note vt = fst_verifyTransactions_at [OF rel restv, of vf 0]
      from cbv obtain cbc where cbc: "transactionCells s cbp = Some cbc"
        "transactionBodyCells s (txBody cbc) = Some (TxBody cbv)"
        by (rule transactionAt_cells)
      have "verifyExceptNonce_at vf now blocks newBlock s =
        (case verifyTransactions vf
                ((chainTransactions bvs)(Transaction_String cbv \<mapsto> cbv)) 0 restv of
           Inl err \<Rightarrow> (Inl err, s)
         | Inr newBlockFees \<Rightarrow>
             if InputValue (TxBody cbv) \<noteq> newBlockFees + MiningReward
             then (Inl CoinbaseValueMismatch, s) else (Inr (), s))"
        unfolding start Cons
        by (simp add: andThen_reads [OF snd_chainTransactions_at] m0(1)
            andThen_reads [OF snd_Transaction_String_at] fst_Transaction_String_at [OF cbv]
            andThen_reads [OF snd_verifyTransactions_at] vt
            andThen_load [of transactionCells, OF cbc(1)] andThen_load [of transactionBodyCells, OF cbc(2)] raise_def ret_def
            split: sum.splits)
      with Inr tv show ?thesis
        by (simp add: verifyExceptNonce_def split: sum.splits)
    qed
  qed
qed

text \<open>
  Claim C9.  Whatever the store, the chain and the candidate are, the store after
  \<^verbatim>\<open>verifyExceptNonce\<close> is the store before it: no block of the chain, no field of the
  candidate and no transaction is changed, whether the result is \<^verbatim>\<open>nil\<close>, an error or a
  panic; the only thing built is the local lookup.  And where the pointers hold
  objects, the result is the result of the function of the first part on the values the
  store holds: it is a function of its inputs and of the time read.
\<close>

theorem validation_is_side_effect_free:
  "snd (verifyExceptNonce_at vf now blocks newBlock s) = s
   \<and> (\<forall>nbv bvs. blockAt s newBlock = Some nbv \<and> those (map (blockAt s) blocks) = Some bvs
        \<longrightarrow> verifyExceptNonce_at vf now blocks newBlock s
              = (verifyExceptNonce vf now bvs nbv, s))"
proof (intro conjI allI impI)
  show "snd (verifyExceptNonce_at vf now blocks newBlock s) = s"
    by (rule snd_verifyExceptNonce_at)
next
  fix nbv bvs
  assume "blockAt s newBlock = Some nbv \<and> those (map (blockAt s) blocks) = Some bvs"
  then have "fst (verifyExceptNonce_at vf now blocks newBlock s) = verifyExceptNonce vf now bvs nbv"
    using fst_verifyExceptNonce_at by blast
  with snd_verifyExceptNonce_at [of vf now blocks newBlock s]
  show "verifyExceptNonce_at vf now blocks newBlock s = (verifyExceptNonce vf now bvs nbv, s)"
    by (simp add: prod_eq_iff)
qed

theorem validation_is_side_effect_free_witness:
  "blockAt exStore 1 = Some exGenesis
   \<and> those (map (blockAt exStore) []) = Some []
   \<and> verifyExceptNonce_at demoVerify 100 [] 1 exStore = (Inr (), exStore)"
proof -
  have b: "blockAt exStore 1 = Some exGenesis"
    by (simp add: blockAt_def transactionAt_def exStore_def ex_defs)
  have c: "those (map (blockAt exStore) []) = Some []"
    by simp
  from validation_is_side_effect_free [of demoVerify 100 "[]" 1 exStore] b c
  have "verifyExceptNonce_at demoVerify 100 [] 1 exStore
          = (verifyExceptNonce demoVerify 100 [] exGenesis, exStore)"
    by blast
  with b c show ?thesis
    by (simp add: exGenesis_verified)
qed

end
